theory Spec2Isabelle
  imports Main "HOL-Library.Word" "HOL-Library.AList"
begin

section \<open>Hook chains of Hook.cpp: data model\<close>

text \<open>
  \<^verbatim>\<open>FuncPtr\<close> is an untyped code address, 64 bits wide as on the 64-bit Android ABIs;
  \<open>0\<close> is \<^verbatim>\<open>nullptr\<close>. The address of a caller-owned \<^verbatim>\<open>FuncPtr*\<close> slot is an address as
  well; the slots lie apart from the registry's own objects. \<^verbatim>\<open>HookPriority\<close> is declared
  in a header that is not part of the sources at hand; only its integer order is used.
\<close>

type_synonym FuncPtr = "64 word"
type_synonym HookPriority = int

record HookElement =
  detour :: FuncPtr
  originalFunc :: FuncPtr
  priority :: HookPriority
  id' :: int

text \<open>\<^verbatim>\<open>HookElement::operator<\<close>.\<close>

definition HookElement_less :: "HookElement \<Rightarrow> HookElement \<Rightarrow> bool" where
  "HookElement_less a b =
     (if priority a \<noteq> priority b then priority a < priority b else id' a < id' b)"

record HookData =
  target :: FuncPtr
  origin :: FuncPtr
  start :: FuncPtr
  stub :: FuncPtr
  hookId :: int
  hooks :: "HookElement list"

text \<open>
  The memory that holds the callers' slots, with a log of the writes made through
  \<^verbatim>\<open>*last = ...\<close>. A write through \<^verbatim>\<open>nullptr\<close> is undefined behaviour: the model stops
  with \<open>None\<close>.
\<close>

record Store =
  mem :: "FuncPtr \<Rightarrow> FuncPtr"
  wlog :: "(FuncPtr \<times> FuncPtr) list"

definition store_write :: "FuncPtr \<Rightarrow> FuncPtr \<Rightarrow> Store \<Rightarrow> Store option" where
  "store_write p v s =
     (if p = 0 then None
      else Some (s\<lparr>mem := (mem s)(p := v), wlog := wlog s @ [(p, v)]\<rparr>))"

text \<open>
  \<^verbatim>\<open>std::set<HookElement>\<close> is kept as the list of its elements in iteration order.
  \<^verbatim>\<open>insert\<close> leaves the set alone when an equivalent element is present.
\<close>

fun set_insert :: "HookElement \<Rightarrow> HookElement list \<Rightarrow> HookElement list" where
  "set_insert x [] = [x]"
| "set_insert x (y # ys) =
     (if HookElement_less x y then x # y # ys
      else if HookElement_less y x then y # set_insert x ys
      else y # ys)"

text \<open>
  The loop of \<^verbatim>\<open>HookData::updateCallList\<close>; its state is \<^verbatim>\<open>last\<close>, \<^verbatim>\<open>this->start\<close> and
  the memory.
\<close>

fun updateCallList_loop ::
  "FuncPtr \<Rightarrow> HookElement list \<Rightarrow> FuncPtr \<times> FuncPtr \<times> Store \<Rightarrow> (FuncPtr \<times> FuncPtr \<times> Store) option"
where
  "updateCallList_loop org [] st = Some st"
| "updateCallList_loop org (item # rest) (lst, strt, s) =
     (if lst = 0 then
        (case store_write (originalFunc item) org s of
           None \<Rightarrow> None
         | Some s' \<Rightarrow> updateCallList_loop org rest (originalFunc item, detour item, s'))
      else
        (case store_write lst (detour item) s of
           None \<Rightarrow> None
         | Some s' \<Rightarrow> updateCallList_loop org rest (originalFunc item, strt, s')))"

definition updateCallList :: "HookData \<Rightarrow> Store \<Rightarrow> (HookData \<times> Store) option" where
  "updateCallList d s =
     (case updateCallList_loop (origin d) (hooks d) (0, start d, s) of
        None \<Rightarrow> None
      | Some (lst, strt, s') \<Rightarrow>
          if lst = 0 then Some (d\<lparr>start := origin d\<rparr>, s')
          else (case store_write lst (origin d) s' of
                  None \<Rightarrow> None
                | Some s'' \<Rightarrow> Some (d\<lparr>start := strt\<rparr>, s'')))"

text \<open>
  \<^verbatim>\<open>incrementHookId\<close>: \<^verbatim>\<open>++hookId\<close> on an \<^verbatim>\<open>int\<close>. Signed overflow is undefined
  behaviour (\<open>None\<close>).
\<close>

definition incrementHookId :: "HookData \<Rightarrow> (int \<times> HookData) option" where
  "incrementHookId d =
     (if hookId d = 2147483647 then None
      else Some (hookId d + 1, d\<lparr>hookId := hookId d + 1\<rparr>))"

section \<open>The hooking engine and the registry\<close>

text \<open>
  The shadowhook library is loaded at run time and is a black box: its three entry points
  are parameters, acting on a state \<open>'e\<close> of their own.
  \<open>shadowhook_hook_func_addr e func_addr new_addr cur\<close> returns the stub (\<open>0\<close> on failure)
  and the value that \<^verbatim>\<open>*orig_addr\<close> holds afterwards, \<open>cur\<close> being what it held before.
\<close>

record 'e Engine =
  shadowhook_init :: "'e \<Rightarrow> int \<times> 'e"
  shadowhook_hook_func_addr :: "'e \<Rightarrow> FuncPtr \<Rightarrow> FuncPtr \<Rightarrow> FuncPtr \<Rightarrow> (FuncPtr \<times> FuncPtr) \<times> 'e"
  shadowhook_unhook :: "'e \<Rightarrow> FuncPtr \<Rightarrow> int \<times> 'e"

datatype EngineCall = InitCall int | HookCall FuncPtr FuncPtr FuncPtr | UnhookCall FuncPtr int

text \<open>
  The process state: \<^verbatim>\<open>getHooks()\<close> (an \<^verbatim>\<open>unordered_map\<close>, kept as an association list
  with unique keys), the \<^verbatim>\<open>static bool init\<close> of \<^verbatim>\<open>hook\<close>, the callers' memory, the
  engine's state, and a log of the engine calls made so far: the arguments of each call
  (the target and the new address for a hook, the stub for an unhook) and, last, the
  value the engine returned.
\<close>

record 'e World =
  getHooks :: "(FuncPtr \<times> HookData) list"
  init :: bool
  store :: Store
  eng :: 'e
  calls :: "EngineCall list"

definition ensure_init :: "'e Engine \<Rightarrow> 'e World \<Rightarrow> 'e World" where
  "ensure_init E w =
     (if init w then w
      else (case shadowhook_init E (eng w) of
              (r, e') \<Rightarrow> w\<lparr>init := (r = 0), eng := e', calls := calls w @ [InitCall r]\<rparr>))"

definition hook ::
  "'e Engine \<Rightarrow> FuncPtr \<Rightarrow> FuncPtr \<Rightarrow> FuncPtr \<Rightarrow> HookPriority \<Rightarrow> bool \<Rightarrow> 'e World
     \<Rightarrow> (int \<times> 'e World) option"
where
  "hook E tgt det originalF prio suspendThreads w0 =
     (let w = ensure_init E w0 in
      case map_of (getHooks w) tgt of
        Some hookData \<Rightarrow>
          (case incrementHookId hookData of
             None \<Rightarrow> None
           | Some (i, d1) \<Rightarrow>
               (case updateCallList
                       (d1\<lparr>hooks := set_insert
                            \<lparr>detour = det, originalFunc = originalF, priority = prio, id' = i\<rparr>
                            (hooks d1)\<rparr>) (store w) of
                  None \<Rightarrow> None
                | Some (d2, s') \<Rightarrow>
                    (case shadowhook_hook_func_addr E (eng w) tgt (start d2) (origin d2) of
                       ((stb, org'), e') \<Rightarrow>
                         Some (0, w\<lparr>getHooks := AList.update tgt (d2\<lparr>origin := org'\<rparr>) (getHooks w),
                                     store := s', eng := e',
                                     calls := calls w @ [HookCall tgt (start d2) stb]\<rparr>))))
      | None \<Rightarrow>
          (case shadowhook_hook_func_addr E (eng w) tgt det 0 of
             ((stb, org'), e') \<Rightarrow>
               (case incrementHookId
                       \<lparr>target = tgt, origin = org', start = det, stub = stb, hookId = 0, hooks = []\<rparr> of
                  None \<Rightarrow> None
                | Some (i, d1) \<Rightarrow>
                    (let d2 = d1\<lparr>hooks := set_insert
                                 \<lparr>detour = det, originalFunc = originalF, priority = prio, id' = i\<rparr>
                                 (hooks d1)\<rparr>
                     in if stub d2 = 0
                        then Some (- 1, w\<lparr>eng := e', calls := calls w @ [HookCall tgt det stb]\<rparr>)
                        else
                          (case updateCallList d2 (store w) of
                             None \<Rightarrow> None
                           | Some (d3, s') \<Rightarrow>
                               Some (0, w\<lparr>getHooks := getHooks w @ [(tgt, d3)],
                                           store := s', eng := e',
                                           calls := calls w @ [HookCall tgt det stb]\<rparr>))))))"

text \<open>
  The search loop of \<^verbatim>\<open>unhook\<close>: the set without the first element, in iteration
  order, whose detour is the given one; \<open>None\<close> when there is none.
\<close>

fun erase_detour :: "FuncPtr \<Rightarrow> HookElement list \<Rightarrow> HookElement list option" where
  "erase_detour det [] = None"
| "erase_detour det (x # xs) =
     (if detour x = det then Some xs
      else (case erase_detour det xs of None \<Rightarrow> None | Some ys \<Rightarrow> Some (x # ys)))"

definition unhook ::
  "'e Engine \<Rightarrow> FuncPtr \<Rightarrow> FuncPtr \<Rightarrow> bool \<Rightarrow> 'e World \<Rightarrow> (bool \<times> 'e World) option"
where
  "unhook E tgt det suspendThreads w =
     (if tgt = 0 then Some (False, w)
      else case map_of (getHooks w) tgt of
        None \<Rightarrow> Some (False, w)
      | Some hookData \<Rightarrow>
          (case erase_detour det (hooks hookData) of
             None \<Rightarrow> Some (False, w)
           | Some hs \<Rightarrow>
               (case updateCallList (hookData\<lparr>hooks := hs\<rparr>) (store w) of
                  None \<Rightarrow> None
                | Some (d2, s') \<Rightarrow>
                    if hooks d2 = [] then
                      (case shadowhook_unhook E (eng w) (stub d2) of
                         (r, e') \<Rightarrow>
                           Some (True, w\<lparr>getHooks := AList.delete tgt (getHooks w),
                                          store := s', eng := e',
                                          calls := calls w @ [UnhookCall (stub d2) r]\<rparr>))
                    else
                      (case shadowhook_hook_func_addr E (eng w) tgt (start d2) (origin d2) of
                         ((stb, org'), e') \<Rightarrow>
                           Some (True, w\<lparr>getHooks := AList.update tgt (d2\<lparr>origin := org'\<rparr>) (getHooks w),
                                          store := s', eng := e',
                                          calls := calls w @ [HookCall tgt (start d2) stb]\<rparr>)))))"

fun unhookAll_loop ::
  "'e Engine \<Rightarrow> (FuncPtr \<times> HookData) list \<Rightarrow> 'e \<times> EngineCall list \<Rightarrow> 'e \<times> EngineCall list"
where
  "unhookAll_loop E [] st = st"
| "unhookAll_loop E ((tgt, hookData) # rest) (e, cs) =
     (case shadowhook_unhook E e (stub hookData) of
        (r, e') \<Rightarrow> unhookAll_loop E rest (e', cs @ [UnhookCall (stub hookData) r]))"

definition unhookAll :: "'e Engine \<Rightarrow> 'e World \<Rightarrow> 'e World" where
  "unhookAll E w =
     (case unhookAll_loop E (getHooks w) (eng w, calls w) of
        (e', cs) \<Rightarrow> w\<lparr>getHooks := [], eng := e', calls := cs\<rparr>)"

text \<open>A sequence of calls of the public functions, results dropped.\<close>

datatype Op =
    OpHook FuncPtr FuncPtr FuncPtr HookPriority bool
  | OpUnhook FuncPtr FuncPtr bool
  | OpUnhookAll

fun step :: "'e Engine \<Rightarrow> Op \<Rightarrow> 'e World \<Rightarrow> 'e World option" where
  "step E (OpHook tgt det originalF prio susp) w = map_option snd (hook E tgt det originalF prio susp w)"
| "step E (OpUnhook tgt det susp) w = map_option snd (unhook E tgt det susp w)"
| "step E OpUnhookAll w = Some (unhookAll E w)"

fun run :: "'e Engine \<Rightarrow> Op list \<Rightarrow> 'e World \<Rightarrow> 'e World option" where
  "run E [] w = Some w"
| "run E (x # xs) w = (case step E x w of None \<Rightarrow> None | Some w' \<Rightarrow> run E xs w')"

section \<open>The address resolver\<close>

text \<open>
  \<^verbatim>\<open>/proc/self/maps\<close> at the time of a call is \<open>None\<close> when \<^verbatim>\<open>fopen\<close> fails, and else
  the strings that the successive \<^verbatim>\<open>fgets\<close> calls deliver. The two \<^verbatim>\<open>sscanf\<close> formats
  and \<^verbatim>\<open>resolveSignature\<close> (declared in a header, defined elsewhere) are parameters:
  \<open>scan_start\<close> is the value stored by \<^verbatim>\<open>sscanf(line, "%lx-%*lx", &temp)\<close> when it
  returns 1, \<open>scan_range\<close> the pair stored by \<^verbatim>\<open>sscanf(line, "%lx-%lx", &start, &end)\<close>
  when it returns 2.
\<close>

record Env =
  scan_start :: "string \<Rightarrow> 64 word option"
  scan_range :: "string \<Rightarrow> (64 word \<times> 64 word) option"
  resolveSignature :: "64 word \<Rightarrow> 64 word \<Rightarrow> string \<Rightarrow> 64 word"

fun strstr :: "string \<Rightarrow> string \<Rightarrow> bool" where
  "strstr [] needle = (needle = [])"
| "strstr (c # cs) needle = (take (length needle) (c # cs) = needle \<or> strstr cs needle)"

fun getLibBase_loop :: "Env \<Rightarrow> string \<Rightarrow> string list \<Rightarrow> 64 word" where
  "getLibBase_loop env libName [] = 0"
| "getLibBase_loop env libName (line # rest) =
     (if strstr line libName then
        (case scan_start env line of
           Some temp \<Rightarrow> temp
         | None \<Rightarrow> getLibBase_loop env libName rest)
      else getLibBase_loop env libName rest)"

definition getLibBase :: "Env \<Rightarrow> string list option \<Rightarrow> string \<Rightarrow> 64 word" where
  "getLibBase env maps libName =
     (case maps of None \<Rightarrow> 0 | Some lines \<Rightarrow> getLibBase_loop env libName lines)"

fun getLibSize_loop :: "Env \<Rightarrow> string \<Rightarrow> string list \<Rightarrow> 64 word \<Rightarrow> 64 word" where
  "getLibSize_loop env libName [] totalSize = totalSize"
| "getLibSize_loop env libName (line # rest) totalSize =
     (if strstr line libName then
        (case scan_range env line of
           Some (strt, endp) \<Rightarrow> getLibSize_loop env libName rest (totalSize + (endp - strt))
         | None \<Rightarrow> getLibSize_loop env libName rest totalSize)
      else getLibSize_loop env libName rest totalSize)"

definition getLibSize :: "Env \<Rightarrow> string list option \<Rightarrow> string \<Rightarrow> 64 word" where
  "getLibSize env maps libName =
     (case maps of None \<Rightarrow> 0 | Some lines \<Rightarrow> getLibSize_loop env libName lines 0)"

text \<open>
  The three function-local statics of \<^verbatim>\<open>resolveIdentifier\<close>, and a count of the
  \<^verbatim>\<open>fopen\<close> calls on the memory map made so far.
\<close>

record Resolver =
  initialized :: bool
  base :: "64 word"
  size' :: "64 word"
  map_opens :: nat

definition resolveIdentifier ::
  "Env \<Rightarrow> string list option \<Rightarrow> string \<Rightarrow> Resolver \<Rightarrow> FuncPtr \<times> Resolver"
where
  "resolveIdentifier env maps identifier r0 =
     (let r = (if \<not> initialized r0
               then r0\<lparr>initialized := True,
                       base := getLibBase env maps ''libminecraftpe.so'',
                       size' := getLibSize env maps ''libminecraftpe.so'',
                       map_opens := map_opens r0 + 2\<rparr>
               else r0)
      in if base r = 0 \<or> size' r = 0 then (0, r)
         else (let result = resolveSignature env (base r) (size' r) identifier
               in if result \<noteq> 0 then (result, r) else (0, r)))"

section \<open>Specification vocabulary\<close>

text \<open>
  The writes that one pass of \<^verbatim>\<open>updateCallList\<close> makes, in order, over entries whose
  slot addresses are all non-null, and their effect on the memory.
\<close>

definition pass_writes :: "FuncPtr \<Rightarrow> HookElement list \<Rightarrow> (FuncPtr \<times> FuncPtr) list" where
  "pass_writes org es =
     (if es = [] then []
      else (originalFunc (hd es), org) # zip (map originalFunc es) (map detour (tl es) @ [org]))"

definition write_all :: "(FuncPtr \<times> FuncPtr) list \<Rightarrow> (FuncPtr \<Rightarrow> FuncPtr) \<Rightarrow> (FuncPtr \<Rightarrow> FuncPtr)" where
  "write_all ws m = fold (\<lambda>(p, v) m'. m'(p := v)) ws m"

text \<open>
  The wiring of the specification: every entry's slot holds the detour of the next entry,
  the last entry's slot holds \<open>org\<close>.
\<close>

definition wired :: "(FuncPtr \<Rightarrow> FuncPtr) \<Rightarrow> FuncPtr \<Rightarrow> HookElement list \<Rightarrow> bool" where
  "wired m org es = (map (\<lambda>e. m (originalFunc e)) es = map detour (tl es) @ [org])"

text \<open>The slots of the entries are locations (non-null), one per entry.\<close>

definition slots_ok :: "HookElement list \<Rightarrow> bool" where
  "slots_ok es = (distinct (map originalFunc es) \<and> 0 \<notin> set (map originalFunc es))"

text \<open>The contract of the specification: one write per entry, to its slot.\<close>

definition writes_once :: "HookElement list \<Rightarrow> (FuncPtr \<times> FuncPtr) list \<Rightarrow> bool" where
  "writes_once es ws =
     (length ws = length es \<and>
      list_all (\<lambda>e. length (filter (\<lambda>w. fst w = originalFunc e) ws) = 1) es)"

text \<open>Observations of a state at one target, and of one slot.\<close>

definition chain_at :: "FuncPtr \<Rightarrow> 'e World \<Rightarrow> HookData option" where
  "chain_at t w = map_of (getHooks w) t"

definition start_at :: "FuncPtr \<Rightarrow> 'e World \<Rightarrow> FuncPtr option" where
  "start_at t w = map_option start (chain_at t w)"

definition origin_at :: "FuncPtr \<Rightarrow> 'e World \<Rightarrow> FuncPtr option" where
  "origin_at t w = map_option origin (chain_at t w)"

definition slot_at :: "FuncPtr \<Rightarrow> 'e World \<Rightarrow> FuncPtr" where
  "slot_at p w = mem (store w) p"

text \<open>
  The chain invariant of the specification over a memory \<open>m\<close> and an end of chain
  \<open>org\<close>: the chain has entries, they ascend (so their priorities do not descend), the
  slots are wired towards \<open>org\<close>, and \<open>start\<close> is the first detour. The specification
  states it with the \<open>origin\<close> field as the end of chain.
\<close>

definition chain_wired :: "(FuncPtr \<Rightarrow> FuncPtr) \<Rightarrow> FuncPtr \<Rightarrow> HookData \<Rightarrow> bool" where
  "chain_wired m org c =
     (hooks c \<noteq> [] \<and> sorted_wrt HookElement_less (hooks c) \<and> sorted (map priority (hooks c))
      \<and> start c = detour (hd (hooks c)) \<and> wired m org (hooks c))"

definition spec_wiring :: "FuncPtr \<Rightarrow> 'e World \<Rightarrow> bool" where
  "spec_wiring t w =
     (case chain_at t w of
        None \<Rightarrow> True
      | Some c \<Rightarrow> chain_wired (mem (store w)) (origin c) c)"

text \<open>
  What holds of every chain in the registry between calls: it has entries, they ascend
  strictly in the order of \<^verbatim>\<open>operator<\<close>, and no entry's id exceeds the chain's counter.
\<close>

definition chain_ok :: "HookData \<Rightarrow> bool" where
  "chain_ok c =
     (hooks c \<noteq> [] \<and> sorted_wrt HookElement_less (hooks c) \<and> list_all (\<lambda>e. id' e \<le> hookId c) (hooks c))"

definition registry_ok :: "'e World \<Rightarrow> bool" where
  "registry_ok w = (\<forall>t c. chain_at t w = Some c \<longrightarrow> target c = t \<and> chain_ok c)"

text \<open>
  The three ways in which a successful call leaves the state: an engine hook call on the
  chain \<open>c2\<close> that is or stays registered, the registration of a new chain, and the
  removal of a chain with the engine's unhook call.
\<close>

definition rehooked :: "'e Engine \<Rightarrow> FuncPtr \<Rightarrow> HookData \<Rightarrow> Store \<Rightarrow> 'e World \<Rightarrow> 'e World" where
  "rehooked E t c2 s' w =
     (case shadowhook_hook_func_addr E (eng w) t (start c2) (origin c2) of
        ((stb, org'), e') \<Rightarrow>
          w\<lparr>getHooks := AList.update t (c2\<lparr>origin := org'\<rparr>) (getHooks w),
            store := s', eng := e', calls := calls w @ [HookCall t (start c2) stb]\<rparr>)"

definition created :: "'e Engine \<Rightarrow> FuncPtr \<Rightarrow> FuncPtr \<Rightarrow> HookData \<Rightarrow> Store \<Rightarrow> 'e World \<Rightarrow> 'e World" where
  "created E t d c2 s' w =
     (case shadowhook_hook_func_addr E (eng w) t d 0 of
        ((stb, org'), e') \<Rightarrow>
          w\<lparr>getHooks := getHooks w @ [(t, c2)],
            store := s', eng := e', calls := calls w @ [HookCall t d stb]\<rparr>)"

definition removed :: "'e Engine \<Rightarrow> FuncPtr \<Rightarrow> HookData \<Rightarrow> Store \<Rightarrow> 'e World \<Rightarrow> 'e World" where
  "removed E t c2 s' w =
     (case shadowhook_unhook E (eng w) (stub c2) of
        (r, e') \<Rightarrow>
          w\<lparr>getHooks := AList.delete t (getHooks w),
            store := s', eng := e', calls := calls w @ [UnhookCall (stub c2) r]\<rparr>)"

text \<open>
  An install request on a fixed target: detour, slot and priority. \<open>strip\<close> forgets the
  id of an entry; \<open>place\<close> puts a request behind all requests of lower or equal priority;
  \<open>arranged\<close> is the order in which a sequence of requests ends up.
\<close>

type_synonym Install = "FuncPtr \<times> FuncPtr \<times> HookPriority"

definition strip :: "HookElement \<Rightarrow> Install" where
  "strip e = (detour e, originalFunc e, priority e)"

definition place :: "Install \<Rightarrow> Install list \<Rightarrow> Install list" where
  "place i S =
     filter (\<lambda>j. snd (snd j) \<le> snd (snd i)) S @ i # filter (\<lambda>j. snd (snd i) < snd (snd j)) S"

definition arranged :: "Install list \<Rightarrow> Install list" where
  "arranged ins = fold place ins []"





text \<open>
  What can be seen of the wiring at a target: \<open>start\<close>, and for every entry in order its
  detour, slot and priority together with the content of its slot. \<open>ideal_view\<close> is that
  view for requests standing in the order \<open>S\<close> and wired towards \<open>org\<close>.
\<close>

definition wiring_view ::
  "FuncPtr \<Rightarrow> 'e World \<Rightarrow> (FuncPtr \<times> (Install \<times> FuncPtr) list) option"
where
  "wiring_view t w =
     map_option (\<lambda>c. (start c, map (\<lambda>e. (strip e, mem (store w) (originalFunc e))) (hooks c)))
       (chain_at t w)"



section \<open>Concrete scenarios\<close>

definition demo_env :: Env where
  "demo_env = \<lparr>scan_start = (\<lambda>l. Some 0x7000), scan_range = (\<lambda>l. Some (0x7000, 0x9000)),
               resolveSignature = (\<lambda>b s i. b + 0x10)\<rparr>"

definition fresh_resolver :: Resolver where
  "fresh_resolver = \<lparr>initialized = False, base = 0, size' = 0, map_opens = 0\<rparr>"


definition two_chain :: HookData where
  "two_chain =
     \<lparr>target = 0x1000, origin = 0x5000, start = 0x2000, stub = 0x9000, hookId = 2,
      hooks = [\<lparr>detour = 0x2000, originalFunc = 0x3000, priority = 0, id' = 1\<rparr>,
               \<lparr>detour = 0x2100, originalFunc = 0x3100, priority = 1, id' = 2\<rparr>]\<rparr>"

definition blank_store :: Store where
  "blank_store = \<lparr>mem = (\<lambda>p. 0), wlog = []\<rparr>"

text \<open>
  Three engines. \<open>stable_engine\<close> reports the same original entry point for a target on
  every call; \<open>fresh_engine\<close> reports a new one on every call; \<open>failing_engine\<close> succeeds
  once and refuses every later hook and every unhook.
\<close>

definition stable_engine :: "unit Engine" where
  "stable_engine =
     \<lparr>shadowhook_init = (\<lambda>e. (0, e)),
      shadowhook_hook_func_addr = (\<lambda>e t n cur. ((0x9000, 0x5000), e)),
      shadowhook_unhook = (\<lambda>e st. (0, e))\<rparr>"

definition fresh_engine :: "nat Engine" where
  "fresh_engine =
     \<lparr>shadowhook_init = (\<lambda>k. (0, k)),
      shadowhook_hook_func_addr = (\<lambda>k t n cur. ((0x9000 + of_nat k, 0x5000 + of_nat k), Suc k)),
      shadowhook_unhook = (\<lambda>k st. (0, k))\<rparr>"

definition failing_engine :: "nat Engine" where
  "failing_engine =
     \<lparr>shadowhook_init = (\<lambda>k. (0, k)),
      shadowhook_hook_func_addr =
        (\<lambda>k t n cur. if k = 0 then ((0x9000, 0x5000), Suc k) else ((0, cur), Suc k)),
      shadowhook_unhook = (\<lambda>k st. (- 1, k))\<rparr>"


definition world0 :: "'e \<Rightarrow> 'e World" where
  "world0 e = \<lparr>getHooks = [], init = False, store = blank_store, eng = e, calls = []\<rparr>"

text \<open>
  The state after the first hook, \<^verbatim>\<open>hook(0x1000, 0x2000, 0x3000, 0)\<close>, with any of the
  three engines, up to the engine's own state.
\<close>

definition one_chain :: HookData where
  "one_chain =
     \<lparr>target = 0x1000, origin = 0x5000, start = 0x2000, stub = 0x9000, hookId = 1,
      hooks = [\<lparr>detour = 0x2000, originalFunc = 0x3000, priority = 0, id' = 1\<rparr>]\<rparr>"

definition world1 :: "'e \<Rightarrow> 'e World" where
  "world1 e =
     \<lparr>getHooks = [(0x1000, one_chain)], init = True,
      store = \<lparr>mem = (\<lambda>p. 0)(0x3000 := 0x5000), wlog = [(0x3000, 0x5000), (0x3000, 0x5000)]\<rparr>,
      eng = e, calls = [InitCall 0, HookCall 0x1000 0x2000 0x9000]\<rparr>"

text \<open>
  The state after \<^verbatim>\<open>hook(0x1000, 0x2100, 0x3100, 1)\<close> as the second call, with
  \<open>stable_engine\<close>.
\<close>

definition world2 :: "unit World" where
  "world2 =
     \<lparr>getHooks = [(0x1000, two_chain)], init = True,
      store = \<lparr>mem = (\<lambda>p. 0)(0x3000 := 0x2100, 0x3100 := 0x5000),
               wlog = [(0x3000, 0x5000), (0x3000, 0x5000),
                       (0x3000, 0x5000), (0x3000, 0x2100), (0x3100, 0x5000)]\<rparr>,
      eng = (),
      calls = [InitCall 0, HookCall 0x1000 0x2000 0x9000, HookCall 0x1000 0x2000 0x9000]\<rparr>"

text \<open>The state after \<^verbatim>\<open>unhook(0x1000, 0x2000)\<close> in \<open>world1\<close>, with \<open>stable_engine\<close>.\<close>

definition world3 :: "unit World" where
  "world3 =
     \<lparr>getHooks = [], init = True,
      store = \<lparr>mem = (\<lambda>p. 0)(0x3000 := 0x5000), wlog = [(0x3000, 0x5000), (0x3000, 0x5000)]\<rparr>,
      eng = (),
      calls = [InitCall 0, HookCall 0x1000 0x2000 0x9000, UnhookCall 0x9000 0]\<rparr>"

text \<open>
  A chain in which one detour is registered twice: \<^verbatim>\<open>hook(0x1000, 0x2000, 0x3000, 0)\<close>, then
  \<^verbatim>\<open>hook(0x1000, 0x2000, 0x3100, -1)\<close>.
\<close>

definition dup_ops :: "Op list" where
  "dup_ops = [OpHook 0x1000 0x2000 0x3000 0 False, OpHook 0x1000 0x2000 0x3100 (- 1) False]"

definition dup_chain :: HookData where
  "dup_chain =
     \<lparr>target = 0x1000, origin = 0x5000, start = 0x2000, stub = 0x9000, hookId = 2,
      hooks = [\<lparr>detour = 0x2000, originalFunc = 0x3100, priority = - 1, id' = 2\<rparr>,
               \<lparr>detour = 0x2000, originalFunc = 0x3000, priority = 0, id' = 1\<rparr>]\<rparr>"

text \<open>The same two registrations on the null target, which \<^verbatim>\<open>hook\<close> does not refuse.\<close>

definition null_dup_ops :: "Op list" where
  "null_dup_ops = [OpHook 0 0x2000 0x3000 0 False, OpHook 0 0x2000 0x3100 (- 1) False]"

definition null_dup_chain :: HookData where
  "null_dup_chain =
     \<lparr>target = 0, origin = 0x5000, start = 0x2000, stub = 0x9000, hookId = 2,
      hooks = [\<lparr>detour = 0x2000, originalFunc = 0x3100, priority = - 1, id' = 2\<rparr>,
               \<lparr>detour = 0x2000, originalFunc = 0x3000, priority = 0, id' = 1\<rparr>]\<rparr>"


section \<open>The order of the entries and the set operations\<close>

lemma HookElement_less_irrefl: "\<not> HookElement_less a a"
  by (simp add: HookElement_less_def)

lemma HookElement_less_trans:
  "HookElement_less a b \<Longrightarrow> HookElement_less b c \<Longrightarrow> HookElement_less a c"
  by (auto simp: HookElement_less_def split: if_splits)

lemma HookElement_less_fresh:
  "id' y < id' x \<Longrightarrow> HookElement_less x y = (priority x < priority y)"
  "id' y < id' x \<Longrightarrow> HookElement_less y x = (priority y \<le> priority x)"
  by (auto simp: HookElement_less_def)

lemma set_set_insert: "set (set_insert x ys) \<subseteq> insert x (set ys)"
  by (induction ys) auto

lemma sorted_set_insert:
  "sorted_wrt HookElement_less ys \<Longrightarrow> sorted_wrt HookElement_less (set_insert x ys)"
proof (induction ys)
  case Nil
  then show ?case by simp
next
  case (Cons y ys)
  have below: "HookElement_less y z" if "HookElement_less y x" "z \<in> set (set_insert x ys)" for z
    using that Cons.prems set_set_insert [of x ys] by auto
  show ?case
    using Cons below by (auto intro: HookElement_less_trans)
qed

lemma set_insert_fresh:
  "\<forall>y\<in>set ys. id' y < id' x \<Longrightarrow>
   set_insert x ys = takeWhile (\<lambda>y. priority y \<le> priority x) ys @ x # dropWhile (\<lambda>y. priority y \<le> priority x) ys"
  by (induction ys) (auto simp: HookElement_less_fresh)

lemma set_insert_not_Nil: "set_insert x ys \<noteq> []"
  by (cases ys) auto

lemma erase_detour_None: "erase_detour d xs = None \<longleftrightarrow> d \<notin> detour ` set xs"
  by (induction xs) (auto split: option.splits)

lemma erase_detour_Some:
  "erase_detour d xs = Some ys \<Longrightarrow>
   \<exists>pre x post. xs = pre @ x # post \<and> ys = pre @ post \<and> detour x = d \<and> d \<notin> detour ` set pre"
proof (induction xs arbitrary: ys)
  case Nil
  then show ?case by simp
next
  case (Cons a xs)
  show ?case
  proof (cases "detour a = d")
    case True
    with Cons.prems have "ys = xs" by simp
    with True show ?thesis by (intro exI [of _ "[]"] exI [of _ a] exI [of _ xs]) simp
  next
    case False
    with Cons.prems obtain zs where zs: "erase_detour d xs = Some zs" "ys = a # zs"
      by (auto split: option.splits)
    from Cons.IH [OF zs(1)] obtain pre x post
      where "xs = pre @ x # post" "zs = pre @ post" "detour x = d" "d \<notin> detour ` set pre"
      by blast
    with False zs(2) show ?thesis
      by (intro exI [of _ "a # pre"] exI [of _ x] exI [of _ post]) auto
  qed
qed

section \<open>The rewiring pass\<close>

lemma store_write_nonnull:
  "p \<noteq> 0 \<Longrightarrow> store_write p v s = Some (s\<lparr>mem := (mem s)(p := v), wlog := wlog s @ [(p, v)]\<rparr>)"
  by (simp add: store_write_def)

lemma updateCallList_loop_nonnull:
  "lst \<noteq> 0 \<Longrightarrow> 0 \<notin> set (map originalFunc es) \<Longrightarrow>
   updateCallList_loop org es (lst, strt, s) =
     Some (last (lst # map originalFunc es), strt,
           s\<lparr>mem := write_all (zip (lst # map originalFunc es) (map detour es)) (mem s),
             wlog := wlog s @ zip (lst # map originalFunc es) (map detour es)\<rparr>)"
proof (induction es arbitrary: lst s)
  case Nil
  then show ?case by (simp add: write_all_def)
next
  case (Cons e es)
  then show ?case
    by (simp add: store_write_def write_all_def)
qed

lemma updateCallList_nonnull:
  assumes "0 \<notin> set (map originalFunc (hooks d))"
  shows "updateCallList d s =
     Some (d\<lparr>start := (if hooks d = [] then origin d else detour (hd (hooks d)))\<rparr>,
           s\<lparr>mem := write_all (pass_writes (origin d) (hooks d)) (mem s),
             wlog := wlog s @ pass_writes (origin d) (hooks d)\<rparr>)"
proof (cases "hooks d")
  case Nil
  then show ?thesis by (simp add: updateCallList_def pass_writes_def write_all_def)
next
  case (Cons e es)
  define ps where "ps = originalFunc e # map originalFunc es"
  define W where "W = zip ps (map detour es)"
  define s1 where "s1 = s\<lparr>mem := (mem s)(originalFunc e := origin d), wlog := wlog s @ [(originalFunc e, origin d)]\<rparr>"
  from Cons assms have nn: "originalFunc e \<noteq> 0" "0 \<notin> set (map originalFunc es)" by auto
  then have lnz: "last ps \<noteq> 0" unfolding ps_def
    by (metis (no_types, lifting) last_in_set list.discI set_ConsD list.set_intros(1) list.set_intros(2) set_map list.simps(15) insert_iff)
  have zz: "W @ [(last ps, origin d)] = zip ps (map detour es @ [origin d])"
    unfolding W_def ps_def by (induction es arbitrary: e) auto
  have pw: "pass_writes (origin d) (hooks d) = (originalFunc e, origin d) # W @ [(last ps, origin d)]"
    unfolding zz by (simp add: pass_writes_def Cons ps_def)
  have first: "store_write (originalFunc e) (origin d) s = Some s1"
    using nn by (simp add: store_write_nonnull s1_def)
  have loop: "updateCallList_loop (origin d) es (originalFunc e, detour e, s1) =
      Some (last ps, detour e, s1\<lparr>mem := write_all W (mem s1), wlog := wlog s1 @ W\<rparr>)"
    using updateCallList_loop_nonnull [OF nn(1) nn(2)] by (simp add: ps_def W_def)
  have "updateCallList d s =
      Some (d\<lparr>start := detour e\<rparr>,
            s1\<lparr>mem := (write_all W (mem s1))(last ps := origin d),
               wlog := (wlog s1 @ W) @ [(last ps, origin d)]\<rparr>)"
    using lnz by (simp add: updateCallList_def Cons nn first loop store_write_nonnull)
  also have "\<dots> = Some (d\<lparr>start := (if hooks d = [] then origin d else detour (hd (hooks d)))\<rparr>,
           s\<lparr>mem := write_all (pass_writes (origin d) (hooks d)) (mem s),
             wlog := wlog s @ pass_writes (origin d) (hooks d)\<rparr>)"
    by (simp add: pw [unfolded Cons] Cons s1_def write_all_def)
  finally show ?thesis .
qed

lemma write_all_Cons: "write_all ((p, v) # ws) m = write_all ws (m(p := v))"
  by (simp add: write_all_def)

lemma write_all_other: "p \<notin> fst ` set ws \<Longrightarrow> write_all ws m p = m p"
  by (induction ws arbitrary: m) (auto simp: write_all_def)

lemma write_all_zip_nth:
  "length ps = length vs \<Longrightarrow> distinct ps \<Longrightarrow> i < length ps \<Longrightarrow>
   write_all (zip ps vs) m (ps ! i) = vs ! i"
proof (induction ps vs arbitrary: m i rule: list_induct2)
  case Nil
  then show ?case by simp
next
  case (Cons p ps v vs)
  show ?case
  proof (cases i)
    case 0
    have "p \<notin> fst ` set (zip ps vs)"
      using Cons.prems(1) by (auto dest: set_zip_leftD)
    then show ?thesis
      using 0 by (simp add: write_all_Cons write_all_other)
  next
    case (Suc j)
    with Cons.prems have "distinct ps" "j < length ps" by auto
    then have "write_all (zip ps vs) (m(p := v)) (ps ! j) = vs ! j"
      by (rule Cons.IH)
    then show ?thesis
      using Suc by (simp add: write_all_Cons)
  qed
qed

lemma pass_writes_slots: "fst ` set (pass_writes org es) \<subseteq> originalFunc ` set es"
  by (cases es) (auto simp: pass_writes_def dest!: set_zip_leftD)

lemma length_pass_writes:
  "length (pass_writes org es) = (if es = [] then 0 else Suc (length es))"
  by (simp add: pass_writes_def)

lemma wired_pass_writes:
  assumes "slots_ok es" and "es \<noteq> []"
  shows "wired (write_all (pass_writes org es) m) org es"
proof -
  define ps where "ps = map originalFunc es"
  define vs where "vs = map detour (tl es) @ [org]"
  define m1 where "m1 = m(originalFunc (hd es) := org)"
  have len: "length ps = length vs"
    using assms(2) by (simp add: ps_def vs_def)
  have dist: "distinct ps"
    using assms(1) by (simp add: slots_ok_def ps_def)
  have pw: "write_all (pass_writes org es) m = write_all (zip ps vs) m1"
    using assms(2) by (simp add: pass_writes_def write_all_Cons ps_def vs_def m1_def)
  have "map (\<lambda>e. write_all (zip ps vs) m1 (originalFunc e)) es = vs"
  proof (rule nth_equalityI)
    show "length (map (\<lambda>e. write_all (zip ps vs) m1 (originalFunc e)) es) = length vs"
      using len by (simp add: ps_def)
  next
    fix i
    assume "i < length (map (\<lambda>e. write_all (zip ps vs) m1 (originalFunc e)) es)"
    then have i: "i < length ps" by (simp add: ps_def)
    then have "originalFunc (es ! i) = ps ! i" by (simp add: ps_def)
    with write_all_zip_nth [OF len dist i, of m1] i
    show "map (\<lambda>e. write_all (zip ps vs) m1 (originalFunc e)) es ! i = vs ! i"
      by (simp add: ps_def)
  qed
  then show ?thesis
    by (simp add: wired_def pw vs_def)
qed

section \<open>The registry operations\<close>

lemma ensure_init_simps [simp]:
  "getHooks (ensure_init E w) = getHooks w"
  "store (ensure_init E w) = store w"
  by (simp_all add: ensure_init_def split: prod.splits)

lemma updateCallList_hooks:
  "updateCallList d s = Some (d', s') \<Longrightarrow> hooks d' = hooks d \<and> origin d' = origin d \<and> stub d' = stub d
     \<and> hookId d' = hookId d \<and> target d' = target d"
  by (auto simp: updateCallList_def split: option.splits prod.splits if_splits)

lemmas eval_defs =
  hook_def unhook_def ensure_init_def incrementHookId_def updateCallList_def store_write_def
  world0_def blank_store_def Let_def

lemmas scen_defs =
  world1_def one_chain_def world2_def two_chain_def stable_engine_def fresh_engine_def failing_engine_def
  chain_at_def start_at_def origin_at_def

lemma first_hook_stable:
  "hook stable_engine 0x1000 0x2000 0x3000 0 False (world0 ()) = Some (0, world1 ())"
  by (simp add: eval_defs scen_defs)

lemma second_hook_stable:
  "hook stable_engine 0x1000 0x2100 0x3100 1 False (world1 ()) = Some (0, world2)"
  by (simp add: eval_defs scen_defs HookElement_less_def)

lemma first_hook_fresh:
  "hook fresh_engine 0x1000 0x2000 0x3000 0 False (world0 0) = Some (0, world1 1)"
  by (simp add: eval_defs scen_defs)

lemma first_hook_failing:
  "hook failing_engine 0x1000 0x2000 0x3000 0 False (world0 0) = Some (0, world1 1)"
  by (simp add: eval_defs scen_defs)

lemma map_of_update_same: "map_of (AList.update k v al) k = Some v"
  by (simp add: update_conv')

lemma map_of_delete_same: "map_of (AList.delete k al) k = None"
  by (simp add: delete_conv')

lemma map_option_fst_SomeD: "map_option fst x = Some a \<Longrightarrow> \<exists>b. x = Some (a, b)"
  by (cases x) auto

lemma erase_detour_Some_mem: "erase_detour d xs = Some ys \<Longrightarrow> d \<in> detour ` set xs"
  using erase_detour_None [of d xs] by auto

section \<open>What every reachable chain satisfies\<close>

lemma sorted_erase_detour:
  "erase_detour d xs = Some ys \<Longrightarrow> sorted_wrt HookElement_less xs \<Longrightarrow> sorted_wrt HookElement_less ys"
  by (drule erase_detour_Some) (auto simp: sorted_wrt_append)

lemma set_erase_detour: "erase_detour d xs = Some ys \<Longrightarrow> set ys \<subseteq> set xs"
  by (drule erase_detour_Some) auto

lemma chain_ok_insert:
  assumes "chain_ok c"
  shows "chain_ok (c\<lparr>hookId := hookId c + 1,
                     hooks := set_insert \<lparr>detour = d, originalFunc = s, priority = p, id' = hookId c + 1\<rparr> (hooks c)\<rparr>)"
proof -
  let ?x = "\<lparr>detour = d, originalFunc = s, priority = p, id' = hookId c + 1\<rparr>"
  have "id' e \<le> hookId c + 1" if "e \<in> set (set_insert ?x (hooks c))" for e
  proof -
    from that set_set_insert [of ?x "hooks c"] have "e = ?x \<or> e \<in> set (hooks c)" by auto
    with assms show ?thesis by (auto simp: chain_ok_def list_all_iff)
  qed
  with assms show ?thesis
    by (simp add: chain_ok_def sorted_set_insert set_insert_not_Nil list_all_iff)
qed

lemma chain_ok_erase:
  "chain_ok c \<Longrightarrow> erase_detour d (hooks c) = Some hs \<Longrightarrow> hs \<noteq> [] \<Longrightarrow> chain_ok (c\<lparr>hooks := hs\<rparr>)"
  using set_erase_detour [of d "hooks c" hs]
  by (auto simp: chain_ok_def list_all_iff sorted_erase_detour)

lemma rehooked_simps [simp]:
  "store (rehooked E t c2 s' w) = s'"
  "init (rehooked E t c2 s' w) = init w"
  "chain_at t (rehooked E t c2 s' w) =
     Some (c2\<lparr>origin := snd (fst (shadowhook_hook_func_addr E (eng w) t (start c2) (origin c2)))\<rparr>)"
  "t' \<noteq> t \<Longrightarrow> chain_at t' (rehooked E t c2 s' w) = chain_at t' w"
  "calls (rehooked E t c2 s' w) =
     calls w @ [HookCall t (start c2) (fst (fst (shadowhook_hook_func_addr E (eng w) t (start c2) (origin c2))))]"
  "eng (rehooked E t c2 s' w) = snd (shadowhook_hook_func_addr E (eng w) t (start c2) (origin c2))"
  by (simp_all add: rehooked_def chain_at_def update_conv' split: prod.splits)

lemma created_simps [simp]:
  "store (created E t d c2 s' w) = s'"
  "init (created E t d c2 s' w) = init w"
  "chain_at t w = None \<Longrightarrow> chain_at t (created E t d c2 s' w) = Some c2"
  "t' \<noteq> t \<Longrightarrow> chain_at t' (created E t d c2 s' w) = chain_at t' w"
  "calls (created E t d c2 s' w) =
     calls w @ [HookCall t d (fst (fst (shadowhook_hook_func_addr E (eng w) t d 0)))]"
  "eng (created E t d c2 s' w) = snd (shadowhook_hook_func_addr E (eng w) t d 0)"
  by (simp_all add: created_def chain_at_def map_add_def split: prod.splits option.splits)

lemma removed_simps [simp]:
  "store (removed E t c2 s' w) = s'"
  "init (removed E t c2 s' w) = init w"
  "chain_at t (removed E t c2 s' w) = None"
  "t' \<noteq> t \<Longrightarrow> chain_at t' (removed E t c2 s' w) = chain_at t' w"
  "calls (removed E t c2 s' w) =
     calls w @ [UnhookCall (stub c2) (fst (shadowhook_unhook E (eng w) (stub c2)))]"
  "eng (removed E t c2 s' w) = snd (shadowhook_unhook E (eng w) (stub c2))"
  "t \<notin> fst ` set (getHooks (removed E t c2 s' w))"
  by (simp_all add: removed_def chain_at_def delete_conv' delete_notin_dom split: prod.splits)

lemma chain_at_ensure_init [simp]: "chain_at t (ensure_init E w) = chain_at t w"
  by (simp add: chain_at_def)

lemma hook_new_eq:
  assumes "chain_at t w = None"
  shows "hook E t d s p b w =
     (if fst (fst (shadowhook_hook_func_addr E (eng (ensure_init E w)) t d 0)) = 0
      then Some (- 1, (ensure_init E w)
                   \<lparr>eng := snd (shadowhook_hook_func_addr E (eng (ensure_init E w)) t d 0),
                    calls := calls (ensure_init E w) @ [HookCall t d 0]\<rparr>)
      else (case updateCallList
                   \<lparr>target = t,
                    origin = snd (fst (shadowhook_hook_func_addr E (eng (ensure_init E w)) t d 0)),
                    start = d,
                    stub = fst (fst (shadowhook_hook_func_addr E (eng (ensure_init E w)) t d 0)),
                    hookId = 1,
                    hooks = [\<lparr>detour = d, originalFunc = s, priority = p, id' = 1\<rparr>]\<rparr> (store w) of
              None \<Rightarrow> None
            | Some (c2, s') \<Rightarrow> Some (0, created E t d c2 s' (ensure_init E w))))"
  using assms
  by (simp add: hook_def Let_def incrementHookId_def chain_at_def created_def
      split: option.splits prod.splits)

lemma hook_existing_eq:
  assumes "chain_at t w = Some c"
  shows "hook E t d s p b w =
     (if hookId c = 2147483647 then None
      else (case updateCallList
                   (c\<lparr>hookId := hookId c + 1,
                      hooks := set_insert \<lparr>detour = d, originalFunc = s, priority = p, id' = hookId c + 1\<rparr>
                                 (hooks c)\<rparr>) (store w) of
              None \<Rightarrow> None
            | Some (c2, s') \<Rightarrow> Some (0, rehooked E t c2 s' (ensure_init E w))))"
  using assms
  by (simp add: hook_def Let_def incrementHookId_def chain_at_def rehooked_def
      split: option.splits prod.splits)

lemma unhook_eq:
  "unhook E t d b w =
     (if t = 0 then Some (False, w)
      else case chain_at t w of
        None \<Rightarrow> Some (False, w)
      | Some c \<Rightarrow>
          (case erase_detour d (hooks c) of
             None \<Rightarrow> Some (False, w)
           | Some hs \<Rightarrow>
               (case updateCallList (c\<lparr>hooks := hs\<rparr>) (store w) of
                  None \<Rightarrow> None
                | Some (c2, s') \<Rightarrow>
                    Some (True, if hs = [] then removed E t c2 s' w else rehooked E t c2 s' w))))"
  by (auto simp: unhook_def chain_at_def rehooked_def removed_def
      dest: updateCallList_hooks split: option.splits prod.splits)

lemma hook_new_cases:
  assumes "chain_at t w = None" and "hook E t d s p b w = Some (r, w')"
  defines "HF \<equiv> shadowhook_hook_func_addr E (eng (ensure_init E w)) t d 0"
  shows "if fst (fst HF) = 0
         then r = - 1 \<and>
              w' = (ensure_init E w)\<lparr>eng := snd HF,
                     calls := calls (ensure_init E w) @ [HookCall t d 0]\<rparr>
         else r = 0 \<and>
              (\<exists>c2 s'.
                 updateCallList
                   \<lparr>target = t, origin = snd (fst HF), start = d, stub = fst (fst HF), hookId = 1,
                    hooks = [\<lparr>detour = d, originalFunc = s, priority = p, id' = 1\<rparr>]\<rparr> (store w)
                   = Some (c2, s') \<and>
                 w' = created E t d c2 s' (ensure_init E w))"
  using assms(2) unfolding HF_def hook_new_eq [OF assms(1)]
  by (auto split: option.splits if_splits)

lemma hook_existing_cases:
  assumes "chain_at t w = Some c" and "hook E t d s p b w = Some (r, w')"
  shows "r = 0 \<and> hookId c \<noteq> 2147483647 \<and>
         (\<exists>c2 s'.
            updateCallList
              (c\<lparr>hookId := hookId c + 1,
                 hooks := set_insert \<lparr>detour = d, originalFunc = s, priority = p, id' = hookId c + 1\<rparr>
                            (hooks c)\<rparr>) (store w) = Some (c2, s') \<and>
            w' = rehooked E t c2 s' (ensure_init E w))"
  using assms(2) unfolding hook_existing_eq [OF assms(1)]
  by (auto split: option.splits if_splits)

lemma unhook_True_cases:
  assumes "unhook E t d b w = Some (True, w')"
  shows "\<exists>c hs c2 s'.
           t \<noteq> 0 \<and> chain_at t w = Some c \<and> erase_detour d (hooks c) = Some hs \<and>
           updateCallList (c\<lparr>hooks := hs\<rparr>) (store w) = Some (c2, s') \<and>
           w' = (if hs = [] then removed E t c2 s' w else rehooked E t c2 s' w)"
  using assms unfolding unhook_eq
  by (auto split: option.splits if_splits)

lemma unhook_False_cases:
  assumes "unhook E t d b w = Some (False, w')"
  shows "w' = w \<and> (t = 0 \<or> chain_at t w = None
           \<or> (\<exists>c. chain_at t w = Some c \<and> d \<notin> detour ` set (hooks c)))"
  using assms unfolding unhook_eq
  by (auto simp: erase_detour_None [symmetric] split: option.splits if_splits)

lemma hook_registry_ok:
  assumes "registry_ok w" and "hook E t d s p b w = Some (r, w')"
  shows "registry_ok w'"
proof (cases "chain_at t w")
  case None
  show ?thesis
  proof (cases "fst (fst (shadowhook_hook_func_addr E (eng (ensure_init E w)) t d 0)) = 0")
    case True
    with hook_new_cases [OF None assms(2)] assms(1) show ?thesis
      by (simp add: registry_ok_def chain_at_def)
  next
    case False
    with hook_new_cases [OF None assms(2)] obtain c2 s' where
      u: "updateCallList
           \<lparr>target = t, origin = snd (fst (shadowhook_hook_func_addr E (eng (ensure_init E w)) t d 0)),
            start = d, stub = fst (fst (shadowhook_hook_func_addr E (eng (ensure_init E w)) t d 0)),
            hookId = 1, hooks = [\<lparr>detour = d, originalFunc = s, priority = p, id' = 1\<rparr>]\<rparr> (store w)
           = Some (c2, s')"
      and w': "w' = created E t d c2 s' (ensure_init E w)"
      by auto
    from updateCallList_hooks [OF u] have c2: "chain_ok c2" "target c2 = t"
      by (simp_all add: chain_ok_def)
    have "target c = t' \<and> chain_ok c" if "chain_at t' w' = Some c" for t' c
      using that c2 None assms(1) unfolding w'
      by (cases "t' = t") (auto simp: registry_ok_def)
    then show ?thesis by (simp add: registry_ok_def)
  qed
next
  case (Some c)
  then have ok: "chain_ok c" "target c = t" using assms(1) by (auto simp: registry_ok_def)
  from hook_existing_cases [OF Some assms(2)] obtain c2 s' where
    u: "updateCallList
         (c\<lparr>hookId := hookId c + 1,
            hooks := set_insert \<lparr>detour = d, originalFunc = s, priority = p, id' = hookId c + 1\<rparr>
                       (hooks c)\<rparr>) (store w) = Some (c2, s')"
    and w': "w' = rehooked E t c2 s' (ensure_init E w)"
    by auto
  from updateCallList_hooks [OF u] chain_ok_insert [OF ok(1), of d s p] ok(2)
  have c2: "chain_ok c2" "target c2 = t"
    by (auto simp: chain_ok_def)
  have "target c' = t' \<and> chain_ok c'" if "chain_at t' w' = Some c'" for t' c'
    using that c2 assms(1) unfolding w'
    by (cases "t' = t") (auto simp: registry_ok_def chain_ok_def)
  then show ?thesis by (simp add: registry_ok_def)
qed

lemma unhook_registry_ok:
  assumes "registry_ok w" and "unhook E t d b w = Some (r, w')"
  shows "registry_ok w'"
proof (cases r)
  case False
  with assms(2) have "w' = w"
    by (auto dest: unhook_False_cases)
  with assms(1) show ?thesis by simp
next
  case True
  with assms(2) have "unhook E t d b w = Some (True, w')" by simp
  from unhook_True_cases [OF this] obtain c hs c2 s' where
    c: "chain_at t w = Some c" and e: "erase_detour d (hooks c) = Some hs"
    and u: "updateCallList (c\<lparr>hooks := hs\<rparr>) (store w) = Some (c2, s')"
    and w': "w' = (if hs = [] then removed E t c2 s' w else rehooked E t c2 s' w)"
    by blast
  from c assms(1) have ok: "chain_ok c" "target c = t" by (auto simp: registry_ok_def)
  show ?thesis
  proof (cases "hs = []")
    case True
    have "target c' = t' \<and> chain_ok c'" if "chain_at t' w' = Some c'" for t' c'
      using that assms(1) True unfolding w'
      by (cases "t' = t") (auto simp: registry_ok_def)
    then show ?thesis by (simp add: registry_ok_def)
  next
    case False
    from chain_ok_erase [OF ok(1) e False] updateCallList_hooks [OF u] ok(2)
    have c2: "chain_ok c2" "target c2 = t" by (auto simp: chain_ok_def)
    have "target c' = t' \<and> chain_ok c'" if "chain_at t' w' = Some c'" for t' c'
      using that assms(1) False c2 unfolding w'
      by (cases "t' = t") (auto simp: registry_ok_def chain_ok_def)
    then show ?thesis by (simp add: registry_ok_def)
  qed
qed

lemma unhookAll_registry_ok: "registry_ok (unhookAll E w)"
  by (simp add: unhookAll_def registry_ok_def chain_at_def split: prod.splits)

lemma step_registry_ok: "registry_ok w \<Longrightarrow> step E x w = Some w' \<Longrightarrow> registry_ok w'"
  by (cases x) (auto simp: unhookAll_registry_ok dest: hook_registry_ok unhook_registry_ok)

lemma run_registry_ok: "registry_ok w \<Longrightarrow> run E xs w = Some w' \<Longrightarrow> registry_ok w'"
  by (induction xs arbitrary: w) (auto split: option.splits dest: step_registry_ok)

lemma registry_ok_empty: "getHooks w = [] \<Longrightarrow> registry_ok w"
  by (simp add: registry_ok_def chain_at_def)

lemma last_unhook_stable:
  "unhook stable_engine 0x1000 0x2000 False (world1 ()) = Some (True, world3)"
  by (simp add: eval_defs scen_defs world3_def)

lemma keys_chain_at: "t \<in> fst ` set (getHooks w) \<longleftrightarrow> chain_at t w \<noteq> None"
  by (simp add: chain_at_def map_of_eq_None_iff)

lemma updateCallList_Nil:
  "hooks c = [] \<Longrightarrow> updateCallList c s = Some (c\<lparr>start := origin c\<rparr>, s)"
  by (simp add: updateCallList_def)

lemma length_erase_detour: "erase_detour d xs = Some ys \<Longrightarrow> length xs = Suc (length ys)"
  by (drule erase_detour_Some) auto

lemma run_append: "run E (xs @ ys) w = Option.bind (run E xs w) (run E ys)"
  by (induction xs arbitrary: w) (auto split: option.splits)

lemma map_option_SomeD: "map_option f x = Some a \<Longrightarrow> \<exists>y. x = Some y \<and> f y = a"
  by (cases x) auto

lemma run_reachable_ok: "getHooks w0 = [] \<Longrightarrow> run E xs w0 = Some w \<Longrightarrow> registry_ok w"
  by (auto intro: run_registry_ok registry_ok_empty)

lemma updateCallList_nonnull_Some:
  "0 \<notin> originalFunc ` set (hooks c) \<Longrightarrow> updateCallList c s \<noteq> None"
  using updateCallList_nonnull [of c s] by simp

lemma sorted_priorities:
  "sorted_wrt HookElement_less xs \<Longrightarrow> sorted (map priority xs)"
proof -
  assume "sorted_wrt HookElement_less xs"
  then have "sorted_wrt (\<lambda>a b. priority a \<le> priority b) xs"
    by (rule sorted_wrt_mono_rel [rotated]) (auto simp: HookElement_less_def split: if_splits)
  then show ?thesis by (simp add: sorted_map)
qed

lemma set_insert_mem_fresh:
  "\<forall>y\<in>set ys. id' y < id' x \<Longrightarrow> x \<in> set (set_insert x ys)"
  by (simp add: set_insert_fresh)

lemma slots_ok_nonnull: "slots_ok es \<Longrightarrow> 0 \<notin> set (map originalFunc es)"
  by (simp add: slots_ok_def)

lemma updateCallList_wired:
  assumes "updateCallList c s = Some (c2, s')" and "slots_ok (hooks c)" and "hooks c \<noteq> []"
  shows "start c2 = detour (hd (hooks c)) \<and> wired (mem s') (origin c) (hooks c)"
  using assms updateCallList_nonnull [OF slots_ok_nonnull [OF assms(2)], of s]
  by (auto simp: wired_pass_writes)


lemma chain_wired_origin [simp]: "chain_wired m org (c\<lparr>origin := x\<rparr>) = chain_wired m org c"
  by (simp add: chain_wired_def)

lemma chain_wired_update:
  assumes "updateCallList c s = Some (c2, s')" and "slots_ok (hooks c)" and "chain_ok c"
  shows "chain_wired (mem s') (origin c) (c2\<lparr>origin := org'\<rparr>)"
proof -
  from assms(3) have ne: "hooks c \<noteq> []" and srt: "sorted_wrt HookElement_less (hooks c)"
    by (simp_all add: chain_ok_def)
  from updateCallList_wired [OF assms(1,2) ne] updateCallList_hooks [OF assms(1)] ne srt
  show ?thesis
    by (simp add: chain_wired_def sorted_priorities)
qed

section \<open>Sequences of installs and removals\<close>








lemma set_place [simp]: "set (place i S) = insert i (set S)"
  by (auto simp: place_def)

lemma place_not_Nil [simp]: "place i S \<noteq> []"
  by (simp add: place_def)

lemma set_fold_place: "set (fold place ins S) = set ins \<union> set S"
  by (induction ins arbitrary: S) auto

lemma set_arranged [simp]: "set (arranged ins) = set ins"
  by (simp add: arranged_def set_fold_place)





lemma place_Nil [simp]: "place i [] = [i]"
  by (simp add: place_def)












section \<open>The resolver caches its first scan\<close>

lemma resolveIdentifier_mapped_example:
  "resolveIdentifier demo_env (Some [''7000-9000 r-xp libminecraftpe.so'']) ''sym'' fresh_resolver
     = (0x7010, \<lparr>initialized = True, base = 0x7000, size' = 0x2000, map_opens = 2\<rparr>)"
  by (simp add: resolveIdentifier_def fresh_resolver_def demo_env_def getLibBase_def getLibSize_def)



section \<open>One pass of the rewiring\<close>

text \<open>
  Claim C6, as amended. Over \<open>n \<ge> 1\<close> entries whose slots are non-null, one pass of
  \<^verbatim>\<open>updateCallList\<close> makes \<open>n + 1\<close> writes, in this order: the first entry's slot
  receives \<open>origin\<close>, then every entry's slot receives its final value (the next entry's
  detour, \<open>origin\<close> for the last entry). So the first entry's slot is written twice and
  every other entry's slot once. No location other than the entries' slots is written, no
  field of the chain other than \<open>start\<close> changes, and with pairwise distinct slots the
  result is the wiring of the specification. Over no entries nothing is written.
\<close>

theorem updateCallList_effect:
  assumes "0 \<notin> set (map originalFunc (hooks d))"
  shows "\<exists>s'. updateCallList d s =
            Some (d\<lparr>start := (if hooks d = [] then origin d else detour (hd (hooks d)))\<rparr>, s')
       \<and> wlog s' = wlog s @ pass_writes (origin d) (hooks d)
       \<and> length (pass_writes (origin d) (hooks d)) = (if hooks d = [] then 0 else Suc (length (hooks d)))
       \<and> mem s' = write_all (pass_writes (origin d) (hooks d)) (mem s)
       \<and> (\<forall>p. p \<notin> originalFunc ` set (hooks d) \<longrightarrow> mem s' p = mem s p)
       \<and> (slots_ok (hooks d) \<and> hooks d \<noteq> [] \<longrightarrow> wired (mem s') (origin d) (hooks d))"
proof -
  have "p \<notin> fst ` set (pass_writes (origin d) (hooks d))" if "p \<notin> originalFunc ` set (hooks d)" for p
    using that pass_writes_slots [of "origin d" "hooks d"] by blast
  then show ?thesis
    by (simp add: updateCallList_nonnull [OF assms] length_pass_writes write_all_other
        wired_pass_writes)
qed

theorem updateCallList_effect_witness:
  "0 \<notin> set (map originalFunc (hooks two_chain))
   \<and> slots_ok (hooks two_chain)
   \<and> map_option fst (updateCallList two_chain blank_store) = Some two_chain
   \<and> map_option (wlog \<circ> snd) (updateCallList two_chain blank_store)
       = Some [(0x3000, 0x5000), (0x3000, 0x2100), (0x3100, 0x5000)]"
proof -
  have a: "0 \<notin> set (map originalFunc (hooks two_chain))" by (simp add: two_chain_def)
  have b: "slots_ok (hooks two_chain)" by (simp add: two_chain_def slots_ok_def)
  from updateCallList_effect [OF a, of blank_store] a b show ?thesis
    by (auto simp: two_chain_def blank_store_def pass_writes_def)
qed

text \<open>
  Claim C6, as stated, fails: over two entries the pass makes three writes, and the first
  slot receives \<open>origin\<close> before its final value.
\<close>

theorem updateCallList_writes_once_counterexample:
  "map_option (wlog \<circ> snd) (updateCallList two_chain blank_store)
     = Some [(0x3000, 0x5000), (0x3000, 0x2100), (0x3100, 0x5000)]
   \<and> map_option (writes_once (hooks two_chain) \<circ> wlog \<circ> snd) (updateCallList two_chain blank_store)
     = Some False"
  by (simp add: updateCallList_def two_chain_def blank_store_def store_write_def writes_once_def)

section \<open>Failures\<close>

text \<open>
  Claim C5. A call of \<^verbatim>\<open>hook\<close> that does not return 0 returns \<open>-1\<close>, happens only on
  the first hook of a target when the engine returns no stub, and leaves the registry
  (hence every chain in it) and the callers' memory as they were. A call of \<^verbatim>\<open>unhook\<close>
  that returns false (null target, no chain for the target, or no entry with the detour)
  leaves the whole state as it was.
\<close>

theorem failed_calls_change_nothing:
  "(hook E tgt det slot prio susp w = Some (r, w') \<and> r \<noteq> 0 \<longrightarrow>
      r = - 1 \<and> getHooks w' = getHooks w \<and> store w' = store w
      \<and> map_of (getHooks w) tgt = None
      \<and> fst (fst (shadowhook_hook_func_addr E (eng (ensure_init E w)) tgt det 0)) = 0)
   \<and> (unhook E tgt det susp w = Some (False, w'') \<longrightarrow>
      w'' = w
      \<and> (tgt = 0 \<or> map_of (getHooks w) tgt = None
          \<or> (\<exists>c. map_of (getHooks w) tgt = Some c \<and> det \<notin> detour ` set (hooks c))))"
proof -
  have h: "r = - 1 \<and> getHooks w' = getHooks w \<and> store w' = store w
      \<and> map_of (getHooks w) tgt = None
      \<and> fst (fst (shadowhook_hook_func_addr E (eng (ensure_init E w)) tgt det 0)) = 0"
    if "hook E tgt det slot prio susp w = Some (r, w')" "r \<noteq> 0"
    using that
    by (auto simp: hook_def Let_def incrementHookId_def split: option.splits prod.splits if_splits)
  have u: "w'' = w \<and> (tgt = 0 \<or> map_of (getHooks w) tgt = None
          \<or> (\<exists>c. map_of (getHooks w) tgt = Some c \<and> det \<notin> detour ` set (hooks c)))"
    if "unhook E tgt det susp w = Some (False, w'')"
    using that
    by (auto simp: unhook_def erase_detour_None [symmetric]
        split: option.splits prod.splits if_splits)
  from h u show ?thesis by blast
qed


theorem failed_calls_change_nothing_witness:
  "hook failing_engine 0x1000 0x2000 0x3000 0 False (world0 1)
     = Some (- 1, (world0 1)\<lparr>init := True, eng := 2, calls := [InitCall 0, HookCall 0x1000 0x2000 0]\<rparr>)
   \<and> getHooks ((world0 (1::nat))\<lparr>init := True, eng := 2, calls := [InitCall 0, HookCall 0x1000 0x2000 0]\<rparr>)
       = getHooks (world0 (1::nat))
   \<and> unhook failing_engine 0x1000 0x2000 False (world0 1) = Some (False, world0 1)"
proof -
  have a: "hook failing_engine 0x1000 0x2000 0x3000 0 False (world0 1)
     = Some (- 1, (world0 1)\<lparr>init := True, eng := 2, calls := [InitCall 0, HookCall 0x1000 0x2000 0]\<rparr>)"
    by (simp add: eval_defs failing_engine_def)
  have b: "unhook failing_engine 0x1000 0x2000 False (world0 1) = Some (False, world0 1)"
    by (simp add: eval_defs)
  from failed_calls_change_nothing [of failing_engine "0x1000" "0x2000" "0x3000" 0 False "world0 1"
      "- 1" "(world0 1)\<lparr>init := True, eng := 2, calls := [InitCall 0, HookCall 0x1000 0x2000 0]\<rparr>"
      "world0 1"] a b
  show ?thesis by simp
qed

section \<open>What the engine is asked, and what is reported back\<close>

text \<open>
  Claim C4, as amended. The one engine result that reaches the caller is the stub of the
  first hook of a target: when it is null, \<^verbatim>\<open>hook\<close> returns \<open>-1\<close>. On an existing chain
  \<^verbatim>\<open>hook\<close> returns 0 whatever the engine returns; \<^verbatim>\<open>unhook\<close> returns whether an entry
  with the detour was found, whatever the engine returns; \<^verbatim>\<open>unhookAll\<close> returns nothing
  and empties the registry.
\<close>

theorem reported_results:
  "(map_of (getHooks w) tgt = None \<and> hook E tgt det slot prio susp w = Some (r, w') \<longrightarrow>
      (r = - 1 \<longleftrightarrow> fst (fst (shadowhook_hook_func_addr E (eng (ensure_init E w)) tgt det 0)) = 0)
      \<and> (r = 0 \<longleftrightarrow> fst (fst (shadowhook_hook_func_addr E (eng (ensure_init E w)) tgt det 0)) \<noteq> 0))
   \<and> (map_of (getHooks w) tgt = Some c \<and> hook E tgt det slot prio susp w = Some (r, w') \<longrightarrow> r = 0)
   \<and> (unhook E tgt det susp w = Some (b, w'') \<longrightarrow>
        b = (tgt \<noteq> 0 \<and> (\<exists>c. map_of (getHooks w) tgt = Some c \<and> det \<in> detour ` set (hooks c))))
   \<and> getHooks (unhookAll E w) = []"
proof -
  have n: "(r = - 1 \<longleftrightarrow> fst (fst (shadowhook_hook_func_addr E (eng (ensure_init E w)) tgt det 0)) = 0)
      \<and> (r = 0 \<longleftrightarrow> fst (fst (shadowhook_hook_func_addr E (eng (ensure_init E w)) tgt det 0)) \<noteq> 0)"
    if "map_of (getHooks w) tgt = None" "hook E tgt det slot prio susp w = Some (r, w')"
    using that
    by (auto simp: hook_def Let_def incrementHookId_def split: option.splits prod.splits if_splits)
  have e: "r = 0"
    if "map_of (getHooks w) tgt = Some c" "hook E tgt det slot prio susp w = Some (r, w')"
    using that
    by (auto simp: hook_def Let_def split: option.splits prod.splits if_splits)
  have u: "b = (tgt \<noteq> 0 \<and> (\<exists>c. map_of (getHooks w) tgt = Some c \<and> det \<in> detour ` set (hooks c)))"
    if "unhook E tgt det susp w = Some (b, w'')"
    using that
    by (auto simp: unhook_def erase_detour_None [symmetric] dest: erase_detour_Some_mem
        split: option.splits prod.splits if_splits)
  have a: "getHooks (unhookAll E w) = []"
    by (simp add: unhookAll_def split: prod.splits)
  from n e u a show ?thesis by blast
qed


theorem reported_results_witness:
  "map_of (getHooks (world0 (1::nat))) 0x1000 = None
   \<and> map_option fst (hook failing_engine 0x1000 0x2000 0x3000 0 False (world0 1)) = Some (- 1)
   \<and> fst (fst (shadowhook_hook_func_addr failing_engine
          (eng (ensure_init failing_engine (world0 1))) 0x1000 0x2000 0)) = 0
   \<and> map_of (getHooks (world1 (1::nat))) 0x1000 = Some one_chain
   \<and> map_option fst (hook failing_engine 0x1000 0x2100 0x3100 1 False (world1 1)) = Some 0
   \<and> map_option fst (unhook failing_engine 0x1000 0x2000 False (world1 1)) = Some True"
proof -
  have "map_option fst (hook failing_engine 0x1000 0x2000 0x3000 0 False (world0 1)) = Some (- 1)"
    by (simp add: eval_defs scen_defs)
  from map_option_fst_SomeD [OF this]
  obtain w' where a: "hook failing_engine 0x1000 0x2000 0x3000 0 False (world0 1) = Some (- 1, w')"
    by (rule exE)
  have "map_option fst (hook failing_engine 0x1000 0x2100 0x3100 1 False (world1 1)) = Some 0"
    by (simp add: eval_defs scen_defs HookElement_less_def)
  from map_option_fst_SomeD [OF this]
  obtain w2 where b: "hook failing_engine 0x1000 0x2100 0x3100 1 False (world1 1) = Some (0, w2)"
    by (rule exE)
  have "map_option fst (unhook failing_engine 0x1000 0x2000 False (world1 1)) = Some True"
    by (simp add: eval_defs scen_defs)
  from map_option_fst_SomeD [OF this]
  obtain w3 where c: "unhook failing_engine 0x1000 0x2000 False (world1 1) = Some (True, w3)"
    by (rule exE)
  have n: "map_of (getHooks (world0 (1::nat))) 0x1000 = None" by (simp add: world0_def)
  have e: "map_of (getHooks (world1 (1::nat))) 0x1000 = Some one_chain" by (simp add: world1_def)
  from reported_results [where w = "world0 1" and tgt = "0x1000" and E = failing_engine
      and det = "0x2000" and slot = "0x3000" and prio = 0 and susp = False and r = "- 1" and w' = w',
      THEN conjunct1, THEN mp, OF conjI [OF n a]]
  have "fst (fst (shadowhook_hook_func_addr failing_engine (eng (ensure_init failing_engine (world0 1)))
           0x1000 0x2000 0)) = 0"
    by simp
  with a b c n e show ?thesis by simp
qed

text \<open>
  Claim C4, as stated, fails: after the first hook the engine refuses the second one
  (the logged call returns a null stub) and \<^verbatim>\<open>hook\<close> returns 0; it refuses the unhook
  (the logged call returns \<open>-1\<close>) and \<^verbatim>\<open>unhook\<close> returns true.
\<close>

theorem reported_results_counterexample:
  "run failing_engine [OpHook 0x1000 0x2000 0x3000 0 False] (world0 0) = Some (world1 1)
   \<and> map_option fst (hook failing_engine 0x1000 0x2100 0x3100 1 False (world1 1)) = Some 0
   \<and> map_option (last \<circ> calls \<circ> snd) (hook failing_engine 0x1000 0x2100 0x3100 1 False (world1 1))
       = Some (HookCall 0x1000 0x2000 0)
   \<and> map_option fst (unhook failing_engine 0x1000 0x2000 False (world1 1)) = Some True
   \<and> map_option (last \<circ> calls \<circ> snd) (unhook failing_engine 0x1000 0x2000 False (world1 1))
       = Some (UnhookCall 0x9000 (- 1))"
  by (simp add: first_hook_failing) (auto simp: eval_defs scen_defs HookElement_less_def)

text \<open>
  Claim C3, as amended. An install on an existing chain, and a remove that leaves entries
  in the chain, each call the engine's hook primitive exactly once, with the target and
  the recomputed \<open>start\<close>, whether or not \<open>start\<close> has changed.
\<close>

theorem engine_called_every_time:
  "(map_of (getHooks w) tgt = Some c \<and> hook E tgt det slot prio susp w = Some (r, w') \<longrightarrow>
      (\<exists>c' stb. map_of (getHooks w') tgt = Some c'
         \<and> calls w' = calls (ensure_init E w) @ [HookCall tgt (start c') stb]))
   \<and> (unhook E tgt det susp w = Some (True, w'') \<and> map_of (getHooks w'') tgt = Some c'' \<longrightarrow>
      (\<exists>stb. calls w'' = calls w @ [HookCall tgt (start c'') stb]))"
proof -
  have h: "\<exists>c' stb. map_of (getHooks w') tgt = Some c'
         \<and> calls w' = calls (ensure_init E w) @ [HookCall tgt (start c') stb]"
    if "map_of (getHooks w) tgt = Some c" "hook E tgt det slot prio susp w = Some (r, w')"
    using that
    by (auto simp: hook_def Let_def map_of_update_same split: option.splits prod.splits if_splits)
  have u: "\<exists>stb. calls w'' = calls w @ [HookCall tgt (start c'') stb]"
    if "unhook E tgt det susp w = Some (True, w'')" "map_of (getHooks w'') tgt = Some c''"
    using that
    by (auto simp: unhook_def map_of_update_same map_of_delete_same
        split: option.splits prod.splits if_splits)
  from h u show ?thesis by blast
qed

theorem engine_called_every_time_witness:
  "map_of (getHooks (world1 ())) 0x1000 = Some one_chain
   \<and> hook stable_engine 0x1000 0x2100 0x3100 1 False (world1 ()) = Some (0, world2)
   \<and> calls world2 = calls (world1 ()) @ [HookCall 0x1000 0x2000 0x9000]
   \<and> map_option fst (unhook stable_engine 0x1000 0x2000 False world2) = Some True
   \<and> map_option (start_at 0x1000 \<circ> snd) (unhook stable_engine 0x1000 0x2000 False world2)
       = Some (Some 0x2100)
   \<and> (\<exists>stb. map_option (calls \<circ> snd) (unhook stable_engine 0x1000 0x2000 False world2)
       = Some (calls world2 @ [HookCall 0x1000 0x2100 stb]))"
proof -
  have e: "map_of (getHooks (world1 ())) 0x1000 = Some one_chain" by (simp add: world1_def)
  note b = second_hook_stable
  have i: "ensure_init stable_engine (world1 ()) = world1 ()"
    by (simp add: ensure_init_def world1_def)
  from engine_called_every_time [where w = "world1 ()" and tgt = "0x1000" and c = one_chain
      and E = stable_engine and det = "0x2100" and slot = "0x3100" and prio = 1 and susp = False
      and r = 0 and w' = world2, THEN conjunct1, THEN mp, OF conjI [OF e b]]
  obtain c' stb where h: "map_of (getHooks world2) 0x1000 = Some c'"
     "calls world2 = calls (ensure_init stable_engine (world1 ())) @ [HookCall 0x1000 (start c') stb]"
    by auto
  have "map_option fst (unhook stable_engine 0x1000 0x2000 False world2) = Some True"
    by (auto simp: eval_defs scen_defs)
  from map_option_fst_SomeD [OF this]
  obtain w3 where u: "unhook stable_engine 0x1000 0x2000 False world2 = Some (True, w3)"
    by (rule exE)
  have s3: "map_option (start_at 0x1000 \<circ> snd) (unhook stable_engine 0x1000 0x2000 False world2)
       = Some (Some 0x2100)"
    by (auto simp: eval_defs scen_defs)
  with u obtain c3 where c3: "map_of (getHooks w3) 0x1000 = Some c3" "start c3 = 0x2100"
    by (auto simp: start_at_def chain_at_def)
  from engine_called_every_time [where w = world2 and tgt = "0x1000"
      and E = stable_engine and det = "0x2000" and susp = False
      and w'' = w3 and c'' = c3, THEN conjunct2, THEN mp, OF conjI [OF u c3(1)]]
  obtain stb' where "calls w3 = calls world2 @ [HookCall 0x1000 (start c3) stb']"
    by auto
  with u c3 s3 e b show ?thesis
    by (auto simp: world2_def world1_def)
qed

text \<open>
  Claim C3, as stated, fails: a second entry of higher priority value goes behind the
  first, \<open>start\<close> stays what it was, and the engine is called all the same.
\<close>

theorem engine_called_every_time_counterexample:
  "run stable_engine [OpHook 0x1000 0x2000 0x3000 0 False] (world0 ()) = Some (world1 ())
   \<and> start_at 0x1000 (world1 ()) = Some 0x2000
   \<and> map_option (start_at 0x1000 \<circ> snd) (hook stable_engine 0x1000 0x2100 0x3100 1 False (world1 ()))
       = Some (Some 0x2000)
   \<and> map_option (calls \<circ> snd) (hook stable_engine 0x1000 0x2100 0x3100 1 False (world1 ()))
       = Some (calls (world1 ()) @ [HookCall 0x1000 0x2000 0x9000])"
  by (simp add: first_hook_stable) (simp add: eval_defs scen_defs HookElement_less_def)


text \<open>
  Claim C2, as amended. The \<open>origin\<close> field is the output parameter of every call of the
  engine's hook primitive: the first hook of a target, every later hook on its chain, and
  every unhook that leaves entries. After each of them it holds what the engine stored
  there (the engine is handed the target, the recomputed \<open>start\<close> and the old \<open>origin\<close>).
  Calls on another target leave the chain of this one as it is, and so do an \<^verbatim>\<open>unhook\<close>
  that returns false and a \<^verbatim>\<open>hook\<close> that returns non-zero: they leave the whole registry
  as it is.
\<close>

theorem origin_is_engine_output:
  "(map_of (getHooks w) tgt = None \<and> hook E tgt det slot prio susp w = Some (0, w') \<longrightarrow>
      origin_at tgt w' = Some (snd (fst (shadowhook_hook_func_addr E (eng (ensure_init E w)) tgt det 0))))
   \<and> (map_of (getHooks w) tgt = Some c \<and> hook E tgt det slot prio susp w = Some (r, w') \<longrightarrow>
      (\<exists>c'. map_of (getHooks w') tgt = Some c' \<and>
         origin c' = snd (fst (shadowhook_hook_func_addr E (eng (ensure_init E w)) tgt (start c') (origin c)))))
   \<and> (map_of (getHooks w) tgt = Some c \<and> unhook E tgt det susp w = Some (True, w'')
        \<and> map_of (getHooks w'') tgt = Some c'' \<longrightarrow>
      origin c'' = snd (fst (shadowhook_hook_func_addr E (eng w) tgt (start c'') (origin c))))
   \<and> (tgt' \<noteq> tgt \<and> hook E tgt det slot prio susp w = Some (r, w') \<longrightarrow>
      map_of (getHooks w') tgt' = map_of (getHooks w) tgt')
   \<and> (tgt' \<noteq> tgt \<and> unhook E tgt det susp w = Some (b, w'') \<longrightarrow>
      map_of (getHooks w'') tgt' = map_of (getHooks w) tgt')
   \<and> (unhook E tgt det susp w = Some (False, w'') \<longrightarrow> getHooks w'' = getHooks w)
   \<and> (hook E tgt det slot prio susp w = Some (r, w') \<and> r \<noteq> 0 \<longrightarrow> getHooks w' = getHooks w)"
proof -
  have n: "origin_at tgt w' = Some (snd (fst (shadowhook_hook_func_addr E (eng (ensure_init E w)) tgt det 0)))"
    if "map_of (getHooks w) tgt = None" "hook E tgt det slot prio susp w = Some (0, w')"
    using that
    by (auto simp: hook_def Let_def incrementHookId_def origin_at_def chain_at_def map_add_def
        dest!: updateCallList_hooks split: option.splits prod.splits if_splits)
  have h: "\<exists>c'. map_of (getHooks w') tgt = Some c' \<and>
         origin c' = snd (fst (shadowhook_hook_func_addr E (eng (ensure_init E w)) tgt (start c') (origin c)))"
    if "map_of (getHooks w) tgt = Some c" "hook E tgt det slot prio susp w = Some (r, w')"
    using that
    by (auto simp: hook_def Let_def incrementHookId_def map_of_update_same
        dest!: updateCallList_hooks split: option.splits prod.splits if_splits)
  have u: "origin c'' = snd (fst (shadowhook_hook_func_addr E (eng w) tgt (start c'') (origin c)))"
    if "map_of (getHooks w) tgt = Some c" "unhook E tgt det susp w = Some (True, w'')"
       "map_of (getHooks w'') tgt = Some c''"
    using that
    by (auto simp: unhook_def map_of_update_same map_of_delete_same
        dest!: updateCallList_hooks split: option.splits prod.splits if_splits)
  have oh: "map_of (getHooks w') tgt' = map_of (getHooks w) tgt'"
    if "tgt' \<noteq> tgt" "hook E tgt det slot prio susp w = Some (r, w')"
    using that
    by (auto simp: hook_def Let_def update_conv' map_add_def
        split: option.splits prod.splits if_splits)
  have ou: "map_of (getHooks w'') tgt' = map_of (getHooks w) tgt'"
    if "tgt' \<noteq> tgt" "unhook E tgt det susp w = Some (b, w'')"
    using that
    by (auto simp: unhook_def update_conv' delete_conv'
        split: option.splits prod.splits if_splits)
  have uf: "getHooks w'' = getHooks w" if "unhook E tgt det susp w = Some (False, w'')"
    using that
    by (auto simp: unhook_def split: option.splits prod.splits if_splits)
  have hf: "getHooks w' = getHooks w" if "hook E tgt det slot prio susp w = Some (r, w')" "r \<noteq> 0"
    using that
    by (auto simp: hook_def Let_def incrementHookId_def split: option.splits prod.splits if_splits)
  from n h u oh ou uf hf show ?thesis by blast
qed

theorem origin_is_engine_output_witness:
  "map_of (getHooks (world0 (0::nat))) 0x1000 = None
   \<and> hook fresh_engine 0x1000 0x2000 0x3000 0 False (world0 0) = Some (0, world1 1)
   \<and> origin_at 0x1000 (world1 (1::nat)) = Some 0x5000
   \<and> map_of (getHooks (world1 (1::nat))) 0x1000 = Some one_chain
   \<and> map_option fst (hook fresh_engine 0x1000 0x2100 0x3100 1 False (world1 1)) = Some 0
   \<and> map_option (origin_at 0x1000 \<circ> snd) (hook fresh_engine 0x1000 0x2100 0x3100 1 False (world1 1))
       = Some (Some 0x5001)
   \<and> map_option fst (unhook stable_engine 0x1000 0x2000 False world2) = Some True
   \<and> map_option (origin_at 0x1000 \<circ> snd) (unhook stable_engine 0x1000 0x2000 False world2)
       = Some (Some 0x5000)
   \<and> map_option (chain_at 0x1111 \<circ> snd) (hook fresh_engine 0x1000 0x2100 0x3100 1 False (world1 1))
       = Some None
   \<and> map_option (chain_at 0x1111 \<circ> snd) (unhook stable_engine 0x1000 0x2000 False world2)
       = Some None
   \<and> unhook stable_engine 0x1000 0x7777 False world2 = Some (False, world2)
   \<and> origin_at 0x1000 world2 = Some 0x5000
   \<and> map_option (getHooks \<circ> snd) (hook failing_engine 0x1000 0x2000 0x3000 0 False (world0 1))
       = Some []"
proof -
  let ?w2 = "world2"
  have n: "map_of (getHooks (world0 (0::nat))) 0x1000 = None" by (simp add: world0_def)
  note a = first_hook_fresh
  have e1: "map_of (getHooks (world1 (1::nat))) 0x1000 = Some one_chain" by (simp add: world1_def)
  have e2: "map_of (getHooks ?w2) 0x1000 = Some two_chain" by (simp add: world2_def)
  have n1: "map_of (getHooks (world1 (1::nat))) 0x1111 = None" by (simp add: world1_def)
  have n2: "map_of (getHooks ?w2) 0x1111 = None" by (simp add: world2_def)
  have "map_option fst (hook fresh_engine 0x1000 0x2100 0x3100 1 False (world1 1)) = Some 0"
    by (auto simp: eval_defs scen_defs HookElement_less_def)
  from map_option_fst_SomeD [OF this]
  obtain w2 where b: "hook fresh_engine 0x1000 0x2100 0x3100 1 False (world1 1) = Some (0, w2)"
    by (rule exE)
  have "map_option fst (unhook stable_engine 0x1000 0x2000 False ?w2) = Some True"
    by (auto simp: eval_defs scen_defs)
  from map_option_fst_SomeD [OF this]
  obtain w3 where u: "unhook stable_engine 0x1000 0x2000 False ?w2 = Some (True, w3)"
    by (rule exE)
  have "map_option (start_at 0x1000 \<circ> snd) (hook fresh_engine 0x1000 0x2100 0x3100 1 False (world1 1))
       = Some (Some 0x2000)"
    by (auto simp: eval_defs scen_defs HookElement_less_def)
  with b have sb: "start_at 0x1000 w2 = Some 0x2000" by simp
  have "map_option (start_at 0x1000 \<circ> snd) (unhook stable_engine 0x1000 0x2000 False ?w2)
       = Some (Some 0x2100)"
    by (auto simp: eval_defs scen_defs)
  with u obtain c3 where c3: "map_of (getHooks w3) 0x1000 = Some c3" "start c3 = 0x2100"
    by (auto simp: start_at_def chain_at_def)
  note T = origin_is_engine_output [where E = fresh_engine and tgt = "0x1000" and tgt' = "0x1111"]
  note U = origin_is_engine_output [where E = stable_engine and tgt = "0x1000" and tgt' = "0x1111"]
  have i: "eng (ensure_init fresh_engine (world0 0)) = 0" "eng (ensure_init fresh_engine (world1 1)) = 1"
    by (simp_all add: ensure_init_def world0_def world1_def fresh_engine_def)
  from T [where w = "world0 0" and det = "0x2000" and slot = "0x3000" and prio = 0 and susp = False
      and w' = "world1 1", THEN conjunct1, THEN mp, OF conjI [OF n a]]
  have p1: "origin_at 0x1000 (world1 (1::nat)) = Some 0x5000"
    by (simp only: i) (simp add: fresh_engine_def)
  from T [where w = "world1 1" and c = one_chain and det = "0x2100" and slot = "0x3100" and prio = 1
      and susp = False and r = 0 and w' = w2, THEN conjunct2, THEN conjunct1, THEN mp, OF conjI [OF e1 b]]
  have p2: "origin_at 0x1000 w2 = Some 0x5001"
    by (simp only: i) (auto simp: fresh_engine_def origin_at_def chain_at_def)
  from U [where w = ?w2 and c = two_chain and det = "0x2000" and susp = False and w'' = w3 and c'' = c3,
      THEN conjunct2, THEN conjunct2, THEN conjunct1, THEN mp, OF conjI [OF e2 conjI [OF u c3(1)]]]
  have p3: "origin_at 0x1000 w3 = Some 0x5000"
    by (simp add: stable_engine_def origin_at_def chain_at_def c3 world2_def)
  from T [where w = "world1 1" and det = "0x2100" and slot = "0x3100" and prio = 1
      and susp = False and r = 0 and w' = w2,
      THEN conjunct2, THEN conjunct2, THEN conjunct2, THEN conjunct1, THEN mp, OF conjI [OF _ b]] n1
  have p4: "chain_at 0x1111 w2 = None"
    by (simp add: chain_at_def)
  from U [where w = ?w2 and det = "0x2000" and susp = False and b = True and w'' = w3,
      THEN conjunct2, THEN conjunct2, THEN conjunct2, THEN conjunct2, THEN conjunct1, THEN mp,
      OF conjI [OF _ u]] n2
  have p5: "chain_at 0x1111 w3 = None"
    by (simp add: chain_at_def)
  have uf: "unhook stable_engine 0x1000 0x7777 False world2 = Some (False, world2)"
    by (simp add: eval_defs scen_defs)
  from U [where w = ?w2 and det = "0x7777" and susp = False and w'' = world2,
      THEN conjunct2, THEN conjunct2, THEN conjunct2, THEN conjunct2, THEN conjunct2, THEN conjunct1,
      THEN mp, OF uf]
  have p6: "origin_at 0x1000 world2 = Some 0x5000"
    by (simp add: scen_defs)
  have "map_option fst (hook failing_engine 0x1000 0x2000 0x3000 0 False (world0 1)) = Some (- 1)"
    by (simp add: eval_defs scen_defs)
  from map_option_fst_SomeD [OF this]
  obtain w5 where hf: "hook failing_engine 0x1000 0x2000 0x3000 0 False (world0 1) = Some (- 1, w5)"
    by (rule exE)
  have m1: "(- 1 :: int) \<noteq> 0" by simp
  from origin_is_engine_output [where E = failing_engine and tgt = "0x1000" and w = "world0 1"
      and det = "0x2000" and slot = "0x3000" and prio = 0 and susp = False and r = "- 1" and w' = w5,
      THEN conjunct2, THEN conjunct2, THEN conjunct2, THEN conjunct2, THEN conjunct2, THEN conjunct2,
      THEN mp, OF conjI [OF hf m1]]
  have p7: "getHooks w5 = []" by (simp add: world0_def)
  with hf have p7': "map_option (getHooks \<circ> snd) (hook failing_engine 0x1000 0x2000 0x3000 0 False (world0 1))
      = Some []"
    by simp
  from n a e1 b u p1 p2 p3 p4 p5 uf p6 p7' show ?thesis by simp
qed

text \<open>
  Claim C2, as stated, fails: with an engine that reports a new original entry point on
  every call, the second hook on the target changes \<open>origin\<close>.
\<close>

theorem origin_is_engine_output_counterexample:
  "run fresh_engine [OpHook 0x1000 0x2000 0x3000 0 False] (world0 0) = Some (world1 1)
   \<and> origin_at 0x1000 (world1 (1::nat)) = Some 0x5000
   \<and> map_option (origin_at 0x1000 \<circ> snd) (hook fresh_engine 0x1000 0x2100 0x3100 1 False (world1 1))
       = Some (Some 0x5001)"
  by (simp add: first_hook_fresh) (auto simp: eval_defs scen_defs HookElement_less_def)

section \<open>The life of a chain\<close>

text \<open>
  Claim C7. In every state reached from an empty registry by calls of \<^verbatim>\<open>hook\<close>,
  \<^verbatim>\<open>unhook\<close> and \<^verbatim>\<open>unhookAll\<close>, the keys of the registry are the targets whose chain
  has entries. There, an \<^verbatim>\<open>unhook\<close> that takes the only entry of a chain makes exactly
  one engine call, the unhook of the chain's stub, and the target is no key afterwards.
  A successful \<^verbatim>\<open>hook\<close> on a target that is no key registers a chain of its own: one
  entry, counter 1, and the stub and origin that the engine call of this \<^verbatim>\<open>hook\<close> returns.
\<close>

theorem registry_keys_and_chain_life:
  assumes "getHooks w0 = []" and "run E xs w0 = Some w"
  shows "(t \<in> fst ` set (getHooks w) \<longleftrightarrow> (\<exists>c. chain_at t w = Some c \<and> hooks c \<noteq> []))
       \<and> (chain_at t w = Some c \<and> length (hooks c) = 1 \<and> unhook E t d b w = Some (True, w') \<longrightarrow>
            t \<notin> fst ` set (getHooks w') \<and> chain_at t w' = None
            \<and> calls w' = calls w @ [UnhookCall (stub c) (fst (shadowhook_unhook E (eng w) (stub c)))])
       \<and> (chain_at t w = None \<and> hook E t dn sn pn bn w = Some (0, w'') \<longrightarrow>
            (\<exists>c''. chain_at t w'' = Some c''
               \<and> hooks c'' = [\<lparr>detour = dn, originalFunc = sn, priority = pn, id' = 1\<rparr>]
               \<and> hookId c'' = 1 \<and> target c'' = t
               \<and> (stub c'', origin c'') = fst (shadowhook_hook_func_addr E (eng (ensure_init E w)) t dn 0)
               \<and> calls w'' = calls (ensure_init E w) @ [HookCall t dn (stub c'')]))"
proof -
  from assms have ok: "registry_ok w"
    by (auto intro: run_registry_ok registry_ok_empty)
  then have keys: "t \<in> fst ` set (getHooks w) \<longleftrightarrow> (\<exists>c. chain_at t w = Some c \<and> hooks c \<noteq> [])"
    by (auto simp: keys_chain_at registry_ok_def chain_ok_def)
  have last: "t \<notin> fst ` set (getHooks w') \<and> chain_at t w' = None
            \<and> calls w' = calls w @ [UnhookCall (stub c) (fst (shadowhook_unhook E (eng w) (stub c)))]"
    if c: "chain_at t w = Some c" and l: "length (hooks c) = 1" and u: "unhook E t d b w = Some (True, w')"
  proof -
    from unhook_True_cases [OF u] c obtain hs c2 s' where
      e: "erase_detour d (hooks c) = Some hs"
      and up: "updateCallList (c\<lparr>hooks := hs\<rparr>) (store w) = Some (c2, s')"
      and w': "w' = (if hs = [] then removed E t c2 s' w else rehooked E t c2 s' w)"
      by auto
    from length_erase_detour [OF e] l have "hs = []"
      by simp
    with w' updateCallList_hooks [OF up] show ?thesis by simp
  qed
  have fresh: "\<exists>c''. chain_at t w'' = Some c''
               \<and> hooks c'' = [\<lparr>detour = dn, originalFunc = sn, priority = pn, id' = 1\<rparr>]
               \<and> hookId c'' = 1 \<and> target c'' = t
               \<and> (stub c'', origin c'') = fst (shadowhook_hook_func_addr E (eng (ensure_init E w)) t dn 0)
               \<and> calls w'' = calls (ensure_init E w) @ [HookCall t dn (stub c'')]"
    if n: "chain_at t w = None" and h: "hook E t dn sn pn bn w = Some (0, w'')"
    using hook_new_cases [OF n h] n
    by (auto split: if_splits dest!: updateCallList_hooks)
  from last have last': "chain_at t w = Some c \<and> length (hooks c) = 1 \<and> unhook E t d b w = Some (True, w') \<longrightarrow>
            t \<notin> fst ` set (getHooks w') \<and> chain_at t w' = None
            \<and> calls w' = calls w @ [UnhookCall (stub c) (fst (shadowhook_unhook E (eng w) (stub c)))]"
    by (intro impI) (elim conjE)
  from fresh have fresh': "chain_at t w = None \<and> hook E t dn sn pn bn w = Some (0, w'') \<longrightarrow>
            (\<exists>c''. chain_at t w'' = Some c''
               \<and> hooks c'' = [\<lparr>detour = dn, originalFunc = sn, priority = pn, id' = 1\<rparr>]
               \<and> hookId c'' = 1 \<and> target c'' = t
               \<and> (stub c'', origin c'') = fst (shadowhook_hook_func_addr E (eng (ensure_init E w)) t dn 0)
               \<and> calls w'' = calls (ensure_init E w) @ [HookCall t dn (stub c'')])"
    by (intro impI) (elim conjE)
  show ?thesis
    by (rule conjI [OF keys conjI [OF last' fresh']])
qed


theorem registry_keys_and_chain_life_witness:
  "getHooks (world0 ()) = []
   \<and> run stable_engine [OpHook 0x1000 0x2000 0x3000 0 False] (world0 ()) = Some (world1 ())
   \<and> 0x1000 \<in> fst ` set (getHooks (world1 ()))
   \<and> chain_at 0x1000 (world1 ()) = Some one_chain \<and> length (hooks one_chain) = 1
   \<and> unhook stable_engine 0x1000 0x2000 False (world1 ()) = Some (True, world3)
   \<and> 0x1000 \<notin> fst ` set (getHooks world3)
   \<and> calls world3 = calls (world1 ()) @ [UnhookCall 0x9000 0]
   \<and> run stable_engine [OpHook 0x1000 0x2000 0x3000 0 False, OpUnhook 0x1000 0x2000 False] (world0 ())
       = Some world3
   \<and> chain_at 0x1000 world3 = None
   \<and> map_option fst (hook stable_engine 0x1000 0x2100 0x3100 7 False world3) = Some 0
   \<and> map_option (chain_at 0x1000 \<circ> snd) (hook stable_engine 0x1000 0x2100 0x3100 7 False world3)
       = Some (Some \<lparr>target = 0x1000, origin = 0x5000, start = 0x2100, stub = 0x9000, hookId = 1,
                      hooks = [\<lparr>detour = 0x2100, originalFunc = 0x3100, priority = 7, id' = 1\<rparr>]\<rparr>)"
proof -
  have z: "getHooks (world0 ()) = []" by (simp add: world0_def)
  have r1: "run stable_engine [OpHook 0x1000 0x2000 0x3000 0 False] (world0 ()) = Some (world1 ())"
    by (simp add: first_hook_stable)
  have r2: "run stable_engine [OpHook 0x1000 0x2000 0x3000 0 False, OpUnhook 0x1000 0x2000 False] (world0 ())
       = Some world3"
    by (simp add: first_hook_stable last_unhook_stable)
  have c1: "chain_at 0x1000 (world1 ()) = Some one_chain" "length (hooks one_chain) = 1"
    by (simp_all add: scen_defs)
  note u = last_unhook_stable
  note A = registry_keys_and_chain_life [OF z r1, where t = "0x1000" and c = one_chain and d = "0x2000"
      and b = False and w' = world3]
  from A [THEN conjunct1] c1 have k: "0x1000 \<in> fst ` set (getHooks (world1 ()))"
    by (simp add: one_chain_def)
  from A [THEN conjunct2, THEN conjunct1, THEN mp, OF conjI [OF c1(1) conjI [OF c1(2) u]]]
  have l: "0x1000 \<notin> fst ` set (getHooks world3)" "chain_at 0x1000 world3 = None"
     "calls world3 = calls (world1 ()) @ [UnhookCall 0x9000 0]"
    by (simp_all add: one_chain_def stable_engine_def)
  have "map_option fst (hook stable_engine 0x1000 0x2100 0x3100 7 False world3) = Some 0"
    by (auto simp: eval_defs scen_defs world3_def)
  from map_option_fst_SomeD [OF this]
  obtain w4 where h: "hook stable_engine 0x1000 0x2100 0x3100 7 False world3 = Some (0, w4)"
    by (rule exE)
  from registry_keys_and_chain_life [OF z r2, where t = "0x1000" and dn = "0x2100" and sn = "0x3100"
      and pn = 7 and bn = False and w'' = w4,
      THEN conjunct2, THEN conjunct2, THEN mp, OF conjI [OF l(2) h]]
  obtain c4 where c4: "chain_at 0x1000 w4 = Some c4"
     "hooks c4 = [\<lparr>detour = 0x2100, originalFunc = 0x3100, priority = 7, id' = 1\<rparr>]"
     "hookId c4 = 1" "target c4 = 0x1000"
     "(stub c4, origin c4) = fst (shadowhook_hook_func_addr stable_engine
         (eng (ensure_init stable_engine world3)) 0x1000 0x2100 0)"
    by blast
  have st: "map_option (start_at 0x1000 \<circ> snd) (hook stable_engine 0x1000 0x2100 0x3100 7 False world3)
      = Some (Some 0x2100)"
    by (auto simp: eval_defs scen_defs world3_def)
  from c4(5) have "stub c4 = 0x9000" "origin c4 = 0x5000"
    by (simp_all add: stable_engine_def)
  with c4 st h have "c4 = \<lparr>target = 0x1000, origin = 0x5000, start = 0x2100, stub = 0x9000, hookId = 1,
                      hooks = [\<lparr>detour = 0x2100, originalFunc = 0x3100, priority = 7, id' = 1\<rparr>]\<rparr>"
    by (cases c4) (simp add: start_at_def)
  with z r1 r2 c1 u k l h c4(1) show ?thesis by simp
qed

section \<open>Removal by detour\<close>

text \<open>
  Claim C8, as amended. Let a chain of a reachable state, registered under a non-null
  target, hold at least two entries with the detour \<open>d\<close>. A call of \<^verbatim>\<open>unhook\<close> with \<open>d\<close>
  on that target that returns at all returns true and removes one entry \<open>x\<close> with that
  detour, the one that is below every other entry with that detour in the order of
  \<^verbatim>\<open>operator<\<close>; the chain keeps all its other entries, in their order, and one entry fewer
  with the detour \<open>d\<close>. The call does return when the entries' slots are non-null.
  (\<^verbatim>\<open>unhook\<close> refuses the null target before it looks at the registry.)
\<close>

theorem unhook_removes_lowest_match:
  assumes "getHooks w0 = []" and "run E xs w0 = Some w"
    and "chain_at t w = Some c" and "t \<noteq> 0"
    and "2 \<le> length (filter (\<lambda>e. detour e = d) (hooks c))"
  shows "(0 \<notin> originalFunc ` set (hooks c) \<longrightarrow> unhook E t d b w \<noteq> None)
       \<and> (unhook E t d b w = Some (r, w') \<longrightarrow>
            r \<and> (\<exists>c' x. chain_at t w' = Some c' \<and> x \<in> set (hooks c) \<and> detour x = d
                   \<and> (\<forall>y\<in>set (hooks c). detour y = d \<and> y \<noteq> x \<longrightarrow> HookElement_less x y)
                   \<and> hooks c' = remove1 x (hooks c)
                   \<and> length (filter (\<lambda>e. detour e = d) (hooks c'))
                       = length (filter (\<lambda>e. detour e = d) (hooks c)) - 1
                   \<and> hookId c' = hookId c \<and> stub c' = stub c \<and> target c' = target c))"
proof -
  from run_reachable_ok [OF assms(1,2)] assms(3) have srt: "sorted_wrt HookElement_less (hooks c)"
    by (auto simp: registry_ok_def chain_ok_def)
  from assms(5) have "filter (\<lambda>e. detour e = d) (hooks c) \<noteq> []" by auto
  then have "d \<in> detour ` set (hooks c)"
    by (auto simp: filter_empty_conv)
  then obtain hs where e: "erase_detour d (hooks c) = Some hs"
    using erase_detour_None [of d "hooks c"] by (cases "erase_detour d (hooks c)") auto
  from erase_detour_Some [OF e] obtain pre x post where
    sp: "hooks c = pre @ x # post" "hs = pre @ post" "detour x = d" "d \<notin> detour ` set pre"
    by blast
  from sp(1,4) have fpre: "filter (\<lambda>e. detour e = d) pre = []"
    by (auto simp: filter_empty_conv)
  from sp(4,3) have xpre: "x \<notin> set pre" by auto
  have low: "HookElement_less x y" if "y \<in> set (hooks c)" "detour y = d" "y \<noteq> x" for y
  proof -
    from that sp(1,4) have "y \<in> set post" by auto
    with srt sp(1) show ?thesis by (auto simp: sorted_wrt_append)
  qed
  have rm: "remove1 x (hooks c) = hs"
    using xpre by (simp add: sp(1,2) remove1_append)
  have cnt: "length (filter (\<lambda>e. detour e = d) hs) = length (filter (\<lambda>e. detour e = d) (hooks c)) - 1"
    by (simp add: sp fpre)
  from assms(5) cnt have ne: "hs \<noteq> []" by auto
  have ret: "unhook E t d b w \<noteq> None" if "0 \<notin> originalFunc ` set (hooks c)"
  proof -
    from that sp(1,2) have "0 \<notin> originalFunc ` set (hooks (c\<lparr>hooks := hs\<rparr>))" by auto
    from updateCallList_nonnull_Some [OF this, of "store w"] show ?thesis
      by (auto simp: unhook_eq assms(3,4) e)
  qed
  have res: "r \<and> (\<exists>c' x. chain_at t w' = Some c' \<and> x \<in> set (hooks c) \<and> detour x = d
                   \<and> (\<forall>y\<in>set (hooks c). detour y = d \<and> y \<noteq> x \<longrightarrow> HookElement_less x y)
                   \<and> hooks c' = remove1 x (hooks c)
                   \<and> length (filter (\<lambda>e. detour e = d) (hooks c'))
                       = length (filter (\<lambda>e. detour e = d) (hooks c)) - 1
                   \<and> hookId c' = hookId c \<and> stub c' = stub c \<and> target c' = target c)"
    if u: "unhook E t d b w = Some (r, w')"
  proof -
    from u obtain c2 s' where up: "updateCallList (c\<lparr>hooks := hs\<rparr>) (store w) = Some (c2, s')"
      and r: "r" and w': "w' = rehooked E t c2 s' w"
      using ne by (auto simp: unhook_eq assms(3,4) e split: option.splits)
    let ?c' = "c2\<lparr>origin := snd (fst (shadowhook_hook_func_addr E (eng w) t (start c2) (origin c2)))\<rparr>"
    from updateCallList_hooks [OF up] have f: "hooks ?c' = hs" "hookId ?c' = hookId c"
      "stub ?c' = stub c" "target ?c' = target c"
      by simp_all
    have g: "chain_at t w' = Some ?c'" by (simp add: w')
    have m: "x \<in> set (hooks c)" by (simp add: sp(1))
    have "chain_at t w' = Some ?c' \<and> x \<in> set (hooks c) \<and> detour x = d
                   \<and> (\<forall>y\<in>set (hooks c). detour y = d \<and> y \<noteq> x \<longrightarrow> HookElement_less x y)
                   \<and> hooks ?c' = remove1 x (hooks c)
                   \<and> length (filter (\<lambda>e. detour e = d) (hooks ?c'))
                       = length (filter (\<lambda>e. detour e = d) (hooks c)) - 1
                   \<and> hookId ?c' = hookId c \<and> stub ?c' = stub c \<and> target ?c' = target c"
      using g m sp(3) low rm cnt f by simp
    then have "\<exists>c' x. chain_at t w' = Some c' \<and> x \<in> set (hooks c) \<and> detour x = d
                   \<and> (\<forall>y\<in>set (hooks c). detour y = d \<and> y \<noteq> x \<longrightarrow> HookElement_less x y)
                   \<and> hooks c' = remove1 x (hooks c)
                   \<and> length (filter (\<lambda>e. detour e = d) (hooks c'))
                       = length (filter (\<lambda>e. detour e = d) (hooks c)) - 1
                   \<and> hookId c' = hookId c \<and> stub c' = stub c \<and> target c' = target c"
      by - (rule exI [where x = ?c'], rule exI [where x = x], assumption)
    with r show ?thesis by (rule conjI)
  qed
  from ret res show ?thesis by blast
qed


theorem unhook_removes_lowest_match_witness:
  "getHooks (world0 ()) = []
   \<and> map_option (chain_at 0x1000) (run stable_engine dup_ops (world0 ())) = Some (Some dup_chain)
   \<and> 2 \<le> length (filter (\<lambda>e. detour e = 0x2000) (hooks dup_chain))
   \<and> map_option (map_option hooks \<circ> chain_at 0x1000)
         (run stable_engine (dup_ops @ [OpUnhook 0x1000 0x2000 False]) (world0 ()))
       = Some (Some [\<lparr>detour = 0x2000, originalFunc = 0x3000, priority = 0, id' = 1\<rparr>])"
proof -
  let ?e1 = "\<lparr>detour = 0x2000, originalFunc = 0x3000, priority = 0, id' = 1\<rparr> :: HookElement"
  let ?e2 = "\<lparr>detour = 0x2000, originalFunc = 0x3100, priority = - 1, id' = 2\<rparr> :: HookElement"
  have z: "getHooks (world0 ()) = []" by (simp add: world0_def)
  have a: "map_option (chain_at 0x1000) (run stable_engine dup_ops (world0 ())) = Some (Some dup_chain)"
    by (simp add: dup_ops_def first_hook_stable)
       (simp add: eval_defs scen_defs dup_chain_def HookElement_less_def)
  from map_option_SomeD [OF a] obtain w where
    w: "run stable_engine dup_ops (world0 ()) = Some w" "chain_at 0x1000 w = Some dup_chain"
    by blast
  have n: "2 \<le> length (filter (\<lambda>e. detour e = 0x2000) (hooks dup_chain))"
    by (simp add: dup_chain_def)
  have nn: "0 \<notin> originalFunc ` set (hooks dup_chain)" by (simp add: dup_chain_def)
  have t: "(0x1000 :: FuncPtr) \<noteq> 0" by simp
  note T = unhook_removes_lowest_match [OF z w(1) w(2) t n, where b = False]
  from T [THEN conjunct1] nn obtain r w' where u: "unhook stable_engine 0x1000 0x2000 False w = Some (r, w')"
    by (cases "unhook stable_engine 0x1000 0x2000 False w") auto
  from T [where r = r and w' = w', THEN conjunct2, THEN mp, OF u] obtain c' x where
    c': "chain_at 0x1000 w' = Some c'" "x \<in> set (hooks dup_chain)"
      "\<forall>y\<in>set (hooks dup_chain). detour y = 0x2000 \<and> y \<noteq> x \<longrightarrow> HookElement_less x y"
      "hooks c' = remove1 x (hooks dup_chain)"
    by blast
  from c'(2,3) have "x = ?e2"
    by (auto simp: dup_chain_def HookElement_less_def)
  with c'(4) have "hooks c' = [?e1]" by (simp add: dup_chain_def)
  with c'(1) u w(1) have "map_option (map_option hooks \<circ> chain_at 0x1000)
         (run stable_engine (dup_ops @ [OpUnhook 0x1000 0x2000 False]) (world0 ())) = Some (Some [?e1])"
    by (simp add: run_append)
  with z a n show ?thesis by simp
qed

text \<open>
  Claim C8, as stated, fails on the null target: \<^verbatim>\<open>hook\<close> registers a chain under it, here
  with one detour twice, and \<^verbatim>\<open>unhook\<close> returns false and removes nothing.
\<close>

theorem unhook_removes_lowest_match_counterexample:
  "map_option (chain_at 0) (run stable_engine null_dup_ops (world0 ())) = Some (Some null_dup_chain)
   \<and> Option.bind (run stable_engine null_dup_ops (world0 ()))
        (map_option fst \<circ> unhook stable_engine 0 0x2000 False) = Some False
   \<and> map_option (chain_at 0) (run stable_engine (null_dup_ops @ [OpUnhook 0 0x2000 False]) (world0 ()))
       = Some (Some null_dup_chain)"
  by (auto simp: null_dup_ops_def null_dup_chain_def eval_defs scen_defs HookElement_less_def)

section \<open>The wiring after a call\<close>

text \<open>
  Claim C1, as amended. Take a state reached from an empty registry, a successful
  \<^verbatim>\<open>hook\<close> or \<^verbatim>\<open>unhook\<close> on a target whose chain remains, and let the slots of the
  remaining entries be non-null and pairwise distinct. Then the entries ascend in
  (priority, id), every entry's slot holds the next entry's detour, \<open>start\<close> is the first
  entry's detour, and the last entry's slot holds the \<open>origin\<close> that the recomputation
  used: the engine's output of this very call on the first hook of a target, else the
  \<open>origin\<close> of the chain before the call. (The engine call that follows the recomputation
  may store another value in \<open>origin\<close>; where it stores the same one, the invariant of the
  specification holds.) The entry added by \<^verbatim>\<open>hook\<close> carries the chain's counter as its id,
  above the ids of all other entries, so that equal priorities keep their order of
  registration. A recomputation over no entries sets \<open>start\<close> to \<open>origin\<close>.
\<close>

theorem wiring_after_call:
  assumes "getHooks w0 = []" and "run E xs w0 = Some w"
  shows "(hook E t d s p b w = Some (0, w') \<and> chain_at t w' = Some c' \<and> slots_ok (hooks c') \<longrightarrow>
            chain_wired (mem (store w')) (case chain_at t w of None \<Rightarrow> origin c' | Some c \<Rightarrow> origin c) c'
            \<and> \<lparr>detour = d, originalFunc = s, priority = p, id' = hookId c'\<rparr> \<in> set (hooks c')
            \<and> (\<forall>e\<in>set (hooks c'). id' e = hookId c' \<or> id' e < hookId c')
            \<and> (origin c' = (case chain_at t w of None \<Rightarrow> origin c' | Some c \<Rightarrow> origin c)
                 \<longrightarrow> spec_wiring t w'))
       \<and> (unhook E t d b w = Some (True, w'') \<and> chain_at t w'' = Some c'' \<and> slots_ok (hooks c'') \<longrightarrow>
            (\<exists>c. chain_at t w = Some c \<and> chain_wired (mem (store w'')) (origin c) c''
                 \<and> (origin c'' = origin c \<longrightarrow> spec_wiring t w'')))
       \<and> (hooks c0 = [] \<longrightarrow> updateCallList c0 s0 = Some (c0\<lparr>start := origin c0\<rparr>, s0))"
proof -
  note ok = run_reachable_ok [OF assms]
  have H: "chain_wired (mem (store w')) (case chain_at t w of None \<Rightarrow> origin c' | Some c \<Rightarrow> origin c) c'
            \<and> \<lparr>detour = d, originalFunc = s, priority = p, id' = hookId c'\<rparr> \<in> set (hooks c')
            \<and> (\<forall>e\<in>set (hooks c'). id' e = hookId c' \<or> id' e < hookId c')
            \<and> (origin c' = (case chain_at t w of None \<Rightarrow> origin c' | Some c \<Rightarrow> origin c)
                 \<longrightarrow> spec_wiring t w')"
    if h: "hook E t d s p b w = Some (0, w')" and c': "chain_at t w' = Some c'"
      and sl: "slots_ok (hooks c')"
  proof (cases "chain_at t w")
    case None
    let ?HF = "shadowhook_hook_func_addr E (eng (ensure_init E w)) t d 0"
    let ?c1 = "\<lparr>target = t, origin = snd (fst ?HF), start = d, stub = fst (fst ?HF), hookId = 1,
                hooks = [\<lparr>detour = d, originalFunc = s, priority = p, id' = 1\<rparr>]\<rparr>"
    from hook_new_cases [OF None h] obtain c2 s' where
      u: "updateCallList ?c1 (store w) = Some (c2, s')"
      and w': "w' = created E t d c2 s' (ensure_init E w)"
      by (auto split: if_splits)
    from c' w' None have e: "c' = c2" by simp
    note f = updateCallList_hooks [OF u]
    from sl f e have sl1: "slots_ok (hooks ?c1)" by simp
    have ok1: "chain_ok ?c1" by (simp add: chain_ok_def)
    from chain_wired_update [OF u sl1 ok1, of "origin c2"] f
    have cw: "chain_wired (mem s') (origin c2) c2" by simp
    with e w' c' None f show ?thesis
      by (simp add: spec_wiring_def)
  next
    case (Some c)
    let ?x = "\<lparr>detour = d, originalFunc = s, priority = p, id' = hookId c + 1\<rparr>"
    let ?c1 = "c\<lparr>hookId := hookId c + 1, hooks := set_insert ?x (hooks c)\<rparr>"
    from ok Some have cok: "chain_ok c" by (simp add: registry_ok_def)
    from hook_existing_cases [OF Some h] obtain c2 s' where
      u: "updateCallList ?c1 (store w) = Some (c2, s')"
      and w': "w' = rehooked E t c2 s' (ensure_init E w)"
      by auto
    note f = updateCallList_hooks [OF u]
    from c' w' have e: "c' = c2\<lparr>origin := snd (fst (shadowhook_hook_func_addr E
        (eng (ensure_init E w)) t (start c2) (origin c2)))\<rparr>"
      by simp
    from sl e f have sl1: "slots_ok (hooks ?c1)" by simp
    note ok1 = chain_ok_insert [OF cok, of d s p]
    from chain_wired_update [OF u sl1 ok1] e w'
    have cw: "chain_wired (mem (store w')) (origin c) c'" by simp
    from cok have ids: "\<forall>y\<in>set (hooks c). id' y < id' ?x"
      by (auto simp: chain_ok_def list_all_iff)
    from set_insert_mem_fresh [OF ids] e f have m: "?x \<in> set (hooks c')" "hookId c' = hookId c + 1"
      by simp_all
    have lt: "id' y = hookId c' \<or> id' y < hookId c'" if "y \<in> set (hooks c')" for y
    proof -
      from that e f set_set_insert [of ?x "hooks c"] have "y = ?x \<or> y \<in> set (hooks c)" by auto
      with ids m(2) show ?thesis by auto
    qed
    from cw m lt c' Some show ?thesis
      by (auto simp: spec_wiring_def)
  qed
  have U: "\<exists>c. chain_at t w = Some c \<and> chain_wired (mem (store w'')) (origin c) c''
                 \<and> (origin c'' = origin c \<longrightarrow> spec_wiring t w'')"
    if u: "unhook E t d b w = Some (True, w'')" and c'': "chain_at t w'' = Some c''"
      and sl: "slots_ok (hooks c'')"
  proof -
    from unhook_True_cases [OF u] obtain c hs c2 s' where
      c: "chain_at t w = Some c" and e: "erase_detour d (hooks c) = Some hs"
      and up: "updateCallList (c\<lparr>hooks := hs\<rparr>) (store w) = Some (c2, s')"
      and w'': "w'' = (if hs = [] then removed E t c2 s' w else rehooked E t c2 s' w)"
      by blast
    from c'' w'' have ne: "hs \<noteq> []" by (auto split: if_splits)
    with w'' have w2: "w'' = rehooked E t c2 s' w" by simp
    from ok c have cok: "chain_ok c" by (simp add: registry_ok_def)
    note f = updateCallList_hooks [OF up]
    from c'' w2 have eq: "c'' = c2\<lparr>origin := snd (fst (shadowhook_hook_func_addr E
        (eng w) t (start c2) (origin c2)))\<rparr>"
      by simp
    from sl eq f have sl1: "slots_ok (hooks (c\<lparr>hooks := hs\<rparr>))" by simp
    note ok1 = chain_ok_erase [OF cok e ne]
    from chain_wired_update [OF up sl1 ok1] eq w2
    have cw: "chain_wired (mem (store w'')) (origin c) c''" by simp
    with c c'' show ?thesis
      by (auto simp: spec_wiring_def)
  qed
  from H have H': "hook E t d s p b w = Some (0, w') \<and> chain_at t w' = Some c' \<and> slots_ok (hooks c') \<longrightarrow>
            chain_wired (mem (store w')) (case chain_at t w of None \<Rightarrow> origin c' | Some c \<Rightarrow> origin c) c'
            \<and> \<lparr>detour = d, originalFunc = s, priority = p, id' = hookId c'\<rparr> \<in> set (hooks c')
            \<and> (\<forall>e\<in>set (hooks c'). id' e = hookId c' \<or> id' e < hookId c')
            \<and> (origin c' = (case chain_at t w of None \<Rightarrow> origin c' | Some c \<Rightarrow> origin c)
                 \<longrightarrow> spec_wiring t w')"
    by (intro impI) (elim conjE)
  from U have U': "unhook E t d b w = Some (True, w'') \<and> chain_at t w'' = Some c'' \<and> slots_ok (hooks c'') \<longrightarrow>
            (\<exists>c. chain_at t w = Some c \<and> chain_wired (mem (store w'')) (origin c) c''
                 \<and> (origin c'' = origin c \<longrightarrow> spec_wiring t w''))"
    by (intro impI) (elim conjE)
  have Z: "hooks c0 = [] \<longrightarrow> updateCallList c0 s0 = Some (c0\<lparr>start := origin c0\<rparr>, s0)"
    by (simp add: updateCallList_Nil)
  show ?thesis by (rule conjI [OF H' conjI [OF U' Z]])
qed


theorem wiring_after_call_witness:
  "getHooks (world0 ()) = []
   \<and> run stable_engine [OpHook 0x1000 0x2000 0x3000 0 False] (world0 ()) = Some (world1 ())
   \<and> hook stable_engine 0x1000 0x2100 0x3100 1 False (world1 ()) = Some (0, world2)
   \<and> chain_at 0x1000 world2 = Some two_chain \<and> slots_ok (hooks two_chain)
   \<and> chain_wired (mem (store world2)) 0x5000 two_chain
   \<and> spec_wiring 0x1000 world2
   \<and> slot_at 0x3000 world2 = 0x2100 \<and> slot_at 0x3100 world2 = 0x5000
   \<and> map_option fst (unhook stable_engine 0x1000 0x2000 False world2) = Some True
   \<and> map_option (spec_wiring 0x1000 \<circ> snd) (unhook stable_engine 0x1000 0x2000 False world2) = Some True"
proof -
  have z: "getHooks (world0 ()) = []" by (simp add: world0_def)
  have r1: "run stable_engine [OpHook 0x1000 0x2000 0x3000 0 False] (world0 ()) = Some (world1 ())"
    by (simp add: first_hook_stable)
  have r2: "run stable_engine [OpHook 0x1000 0x2000 0x3000 0 False, OpHook 0x1000 0x2100 0x3100 1 False]
      (world0 ()) = Some world2"
    by (simp add: first_hook_stable second_hook_stable)
  note h = second_hook_stable
  have c1: "chain_at 0x1000 (world1 ()) = Some one_chain" by (simp add: scen_defs)
  have c2: "chain_at 0x1000 world2 = Some two_chain" by (simp add: scen_defs)
  have sl: "slots_ok (hooks two_chain)" by (simp add: two_chain_def slots_ok_def)
  from wiring_after_call [OF z r1, where t = "0x1000" and d = "0x2100" and s = "0x3100" and p = 1
      and b = False and w' = world2 and c' = two_chain,
      THEN conjunct1, THEN mp, OF conjI [OF h conjI [OF c2 sl]]] c1
  have a: "chain_wired (mem (store world2)) 0x5000 two_chain" "spec_wiring 0x1000 world2"
    by (simp_all add: one_chain_def two_chain_def)
  have b: "slot_at 0x3000 world2 = 0x2100" "slot_at 0x3100 world2 = 0x5000"
    by (simp_all add: slot_at_def world2_def)
  have "map_option fst (unhook stable_engine 0x1000 0x2000 False world2) = Some True"
    by (auto simp: eval_defs scen_defs)
  from map_option_fst_SomeD [OF this]
  obtain w3 where u: "unhook stable_engine 0x1000 0x2000 False world2 = Some (True, w3)"
    by (rule exE)
  have "map_option (map_option hooks \<circ> chain_at 0x1000 \<circ> snd)
          (unhook stable_engine 0x1000 0x2000 False world2)
        = Some (Some [\<lparr>detour = 0x2100, originalFunc = 0x3100, priority = 1, id' = 2\<rparr>])"
    "map_option (origin_at 0x1000 \<circ> snd) (unhook stable_engine 0x1000 0x2000 False world2)
        = Some (Some 0x5000)"
    by (auto simp: eval_defs scen_defs)
  with u obtain c3 where c3: "chain_at 0x1000 w3 = Some c3"
    "hooks c3 = [\<lparr>detour = 0x2100, originalFunc = 0x3100, priority = 1, id' = 2\<rparr>]"
    "origin c3 = 0x5000"
    by (auto simp: origin_at_def)
  then have sl3: "slots_ok (hooks c3)" by (simp add: slots_ok_def)
  from wiring_after_call [OF z r2, where t = "0x1000" and d = "0x2000" and b = False and w'' = w3
      and c'' = c3, THEN conjunct2, THEN conjunct1, THEN mp, OF conjI [OF u conjI [OF c3(1) sl3]]] c2 c3(3)
  have "spec_wiring 0x1000 w3"
    by (auto simp: two_chain_def)
  with z r1 h c2 sl a b u show ?thesis by simp
qed

text \<open>
  Claim C1, as stated, fails: with an engine that reports a new original entry point on
  every call, the second hook leaves the last slot with the old \<open>origin\<close>, 0x5000, while
  the \<open>origin\<close> field has become 0x5001.
\<close>

theorem wiring_after_call_counterexample:
  "run fresh_engine [OpHook 0x1000 0x2000 0x3000 0 False] (world0 0) = Some (world1 1)
   \<and> map_option fst (hook fresh_engine 0x1000 0x2100 0x3100 1 False (world1 1)) = Some 0
   \<and> map_option (spec_wiring 0x1000 \<circ> snd) (hook fresh_engine 0x1000 0x2100 0x3100 1 False (world1 1))
       = Some False
   \<and> map_option (origin_at 0x1000 \<circ> snd) (hook fresh_engine 0x1000 0x2100 0x3100 1 False (world1 1))
       = Some (Some 0x5001)
   \<and> map_option (slot_at 0x3100 \<circ> snd) (hook fresh_engine 0x1000 0x2100 0x3100 1 False (world1 1))
       = Some 0x5000"
  by (simp add: first_hook_fresh)
     (auto simp: eval_defs scen_defs HookElement_less_def spec_wiring_def chain_wired_def wired_def
        slot_at_def)

text \<open>
  Why the slots must be locations of their own. When the second entry shares the slot of
  the first, the first entry's slot ends up with \<open>origin\<close> and not with the second
  detour; when the second entry's slot is null, \<^verbatim>\<open>last\<close> is null again after the loop and
  \<open>start\<close> becomes \<open>origin\<close>; when the first entry's slot is null, the first write goes
  through a null pointer.
\<close>

lemma shared_slot_example:
  "map_option (spec_wiring 0x1000 \<circ> snd) (hook stable_engine 0x1000 0x2100 0x3000 1 False (world1 ()))
     = Some False
   \<and> map_option (slot_at 0x3000 \<circ> snd) (hook stable_engine 0x1000 0x2100 0x3000 1 False (world1 ()))
     = Some 0x5000"
  by (auto simp: eval_defs scen_defs HookElement_less_def spec_wiring_def chain_wired_def wired_def
      slot_at_def)

lemma null_slot_example:
  "map_option (start_at 0x1000 \<circ> snd) (hook stable_engine 0x1000 0x2100 0 1 False (world1 ()))
     = Some (Some 0x5000)
   \<and> hook stable_engine 0x1000 0x2100 0 (- 1) False (world1 ()) = None"
  by (auto simp: eval_defs scen_defs HookElement_less_def)

section \<open>Removal against omission\<close>




text \<open>
  Why the detours must differ. \<^verbatim>\<open>unhook\<close> names an entry by its detour. With one detour
  registered twice, at priority 5 with slot 0x3000 and then at priority 1 with slot
  0x3100, the call removes the second registration; what remains is the first one, and
  not what omitting the first one gives.
\<close>

lemma duplicate_detour_example:
  "map_option (wiring_view 0x1000)
     (run stable_engine [OpHook 0x1000 0x2000 0x3000 5 False, OpHook 0x1000 0x2000 0x3100 1 False,
                         OpUnhook 0x1000 0x2000 False] (world0 ()))
     = Some (Some (0x2000, [((0x2000, 0x3000, 5), 0x5000)]))
   \<and> map_option (wiring_view 0x1000)
     (run stable_engine [OpHook 0x1000 0x2000 0x3100 1 False] (world0 ()))
     = Some (Some (0x2000, [((0x2000, 0x3100, 1), 0x5000)]))"
  by (auto simp: eval_defs scen_defs HookElement_less_def wiring_view_def strip_def)

end
